theory Spec2Isabelle
  imports Main "HOL-Library.Char_ord" "HOL-Library.List_Lexorder" "HOL-Library.Product_Lexorder"
    "HOL-Library.Word"
begin

section \<open>Values shared by the three operations\<close>

text \<open>
  The library \<^verbatim>\<open>src/lib/index.js\<close> exports \<^verbatim>\<open>generateMigration\<close>,
  \<^verbatim>\<open>applyMigrations\<close> and \<^verbatim>\<open>resetDatabase\<close>. Paths, file names, checksums
  and messages are modelled as \<^typ>\<open>string\<close>; the name given to
  \<^verbatim>\<open>generateMigration\<close>, which the user types, is a sequence of UTF-16 code units.

  A thrown JavaScript error is a value of \<open>error\<close>; \<open>message\<close> is its
  \<^verbatim>\<open>.message\<close>, the only part the \<^verbatim>\<open>catch\<close> blocks read.
\<close>

datatype error =
    ChecksumMismatch string
  | TypeError string
  | DatabaseError string
  | SystemError string

fun message :: "error \<Rightarrow> string" where
  "message (ChecksumMismatch n) =
     ''Checksum mismatch for migration '' @ [CHR 0x22] @ n @ [CHR 0x22]"
| "message (TypeError m) = m"
| "message (DatabaseError m) = m"
| "message (SystemError m) = m"

text \<open>
  One console line: the stream (\<open>Log\<close> for \<^verbatim>\<open>console.log\<close>, \<open>Error\<close> for
  \<^verbatim>\<open>console.error\<close>), the word that chalk colours, and the rest of the line.
\<close>

datatype console = Log string string | Error string string

text \<open>What an exported function resolves to.\<close>

datatype js_value = JSBoolean bool | JSNumber nat

function string_of_nat :: "nat \<Rightarrow> string" where
  "string_of_nat n =
     (if n < 10 then [char_of (48 + n)]
      else string_of_nat (n div 10) @ [char_of (48 + n mod 10)])"
  by pat_completeness auto
termination
  by (relation "measure (\<lambda>n. n)") auto

declare string_of_nat.simps [simp del]

section \<open>Strings: the regular expressions and string methods the code uses\<close>

definition is_digit :: "char \<Rightarrow> bool" where
  "is_digit c \<longleftrightarrow> CHR ''0'' \<le> c \<and> c \<le> CHR ''9''"

text \<open>
  The white space \<^verbatim>\<open>trim\<close> removes, for a text whose characters are below 256: tab,
  line feed, vertical tab, form feed, carriage return, space and the no-break space.
\<close>

definition is_whitespace :: "char \<Rightarrow> bool" where
  "is_whitespace c \<longleftrightarrow>
     (let n = (of_char c :: nat) in (9 \<le> n \<and> n \<le> 13) \<or> n = 32 \<or> n = 160)"

text \<open>\<^verbatim>\<open>s.endsWith(suffix)\<close>.\<close>

definition endsWith :: "string \<Rightarrow> string \<Rightarrow> bool" where
  "endsWith s suf \<longleftrightarrow>
     length suf \<le> length s \<and> drop (length s - length suf) s = suf"

text \<open>\<^verbatim>\<open>s.split(",")\<close>: always at least one piece.\<close>

fun split_on :: "char \<Rightarrow> string \<Rightarrow> string list" where
  "split_on sep [] = [[]]"
| "split_on sep (c # cs) =
     (if c = sep then [] # split_on sep cs
      else (case split_on sep cs of
              [] \<Rightarrow> [[c]]
            | w # ws \<Rightarrow> (c # w) # ws))"

text \<open>\<^verbatim>\<open>s.trim()\<close>.\<close>

definition trim :: "string \<Rightarrow> string" where
  "trim s = rev (dropWhile is_whitespace (rev (dropWhile is_whitespace s)))"

section \<open>The Node.js capabilities\<close>

text \<open>
  Modelled from the spec: the file system and path modules of Node.js are not part of
  the sources (the spec lists them as the filesystem read capability). They are taken
  as parameters: a file system state \<open>'fs\<close> and the operations the code calls on it.
  \<open>fs_read\<close> is the whole content that \<^verbatim>\<open>createReadStream\<close> delivers, \<open>sha256_hex\<close>
  the digest \<^verbatim>\<open>crypto.createHash("sha256")\<close> computes over it, and \<open>toLowerCase\<close> the
  method \<^verbatim>\<open>String.prototype.toLowerCase\<close> with the Unicode case mapping of the
  runtime.
\<close>

type_synonym code_unit = "16 word"

type_synonym js_string = "code_unit list"

text \<open>The JavaScript string of a text whose characters are below 256, and back.\<close>

definition utf16 :: "string \<Rightarrow> js_string" where
  "utf16 s = map (\<lambda>c. of_nat (of_char c)) s"

definition latin1 :: "js_string \<Rightarrow> string" where
  "latin1 s = map (\<lambda>c. char_of (unat c)) s"

record 'fs node_env =
  path_resolve :: "string \<Rightarrow> string"
  path_join :: "string \<Rightarrow> string \<Rightarrow> string"
  fs_readdir :: "'fs \<Rightarrow> string \<Rightarrow> error + string list"
  fs_read :: "'fs \<Rightarrow> string \<Rightarrow> error + string"
  fs_mkdir :: "'fs \<Rightarrow> string \<Rightarrow> error + 'fs"
  fs_writeFile :: "'fs \<Rightarrow> string \<Rightarrow> string \<Rightarrow> error + 'fs"
  sha256_hex :: "string \<Rightarrow> string"
  toLowerCase :: "js_string \<Rightarrow> js_string"

section \<open>generateMigration\<close>

text \<open>
  \<open>isoString\<close> is \<^verbatim>\<open>new Date().toISOString()\<close>;
  the time stamp is its first 14 digits.
\<close>

definition timestamp_of :: "string \<Rightarrow> string" where
  "timestamp_of isoString = take 14 (filter is_digit isoString)"

text \<open>
  The classes of the two regular expressions, on code units: \<^verbatim>\<open>[ a-z\d]\<close> (what
  the first replacement keeps) and \<^verbatim>\<open>\s\<close>.
\<close>

definition kept :: "code_unit \<Rightarrow> bool" where
  "kept c \<longleftrightarrow> c = 0x20 \<or> (0x61 \<le> c \<and> c \<le> 0x7A) \<or> (0x30 \<le> c \<and> c \<le> 0x39)"

definition whitespace :: "code_unit \<Rightarrow> bool" where
  "whitespace c \<longleftrightarrow>
     (0x09 \<le> c \<and> c \<le> 0x0D) \<or> c = 0x20 \<or> c = 0xA0 \<or> c = 0x1680
     \<or> (0x2000 \<le> c \<and> c \<le> 0x200A) \<or> c = 0x2028 \<or> c = 0x2029 \<or> c = 0x202F
     \<or> c = 0x205F \<or> c = 0x3000 \<or> c = 0xFEFF"

text \<open>
  \<^verbatim>\<open>name.toLowerCase().replace(/[^ a-z\d]/g, "").replace(/\s/g, "_")\<close>
\<close>

definition sanitize :: "(js_string \<Rightarrow> js_string) \<Rightarrow> js_string \<Rightarrow> js_string" where
  "sanitize lower nm =
     map (\<lambda>c. if whitespace c then 0x5F else c) (filter kept (lower nm))"

definition fileName_of :: "(js_string \<Rightarrow> js_string) \<Rightarrow> string \<Rightarrow> js_string \<Rightarrow> js_string" where
  "fileName_of lower isoString nm =
     utf16 (timestamp_of isoString) @ utf16 ''_'' @ sanitize lower nm @ utf16 ''.sql''"

text \<open>
  The file name holds code units below 128 only, so it is handed to the path
  functions as a text.
\<close>

definition generateMigration ::
  "'fs node_env \<Rightarrow> string \<Rightarrow> 'fs \<Rightarrow> js_string \<Rightarrow> string \<Rightarrow> error + ('fs \<times> console list)" where
  "generateMigration env isoString fs nm baseDir =
     (let targetDir = path_resolve env baseDir;
          fileName = latin1 (fileName_of (toLowerCase env) isoString nm)
      in case fs_mkdir env fs targetDir of
           Inl e \<Rightarrow> Inl e
         | Inr fs1 \<Rightarrow>
             (case fs_writeFile env fs1 (path_join env targetDir fileName)
                     (''-- Write your migration here'' @ [CHR 0x0A]) of
                Inl e \<Rightarrow> Inl e
              | Inr fs2 \<Rightarrow> Inr (fs2, [Log ''Created'' (path_join env baseDir fileName)])))"

section \<open>The catalog: getMigrationFiles\<close>

record MigrationFile =
  file_name :: string
  file_path :: string
  file_checksum :: string

definition computeChecksum :: "'fs node_env \<Rightarrow> 'fs \<Rightarrow> string \<Rightarrow> error + string" where
  "computeChecksum env fs p =
     (case fs_read env fs p of
        Inl e \<Rightarrow> Inl e
      | Inr content \<Rightarrow> Inr (sha256_hex env content))"

text \<open>The loop over the directory listing; \<open>result\<close> is the array being pushed to.\<close>

fun collectMigrationFiles ::
  "'fs node_env \<Rightarrow> 'fs \<Rightarrow> string \<Rightarrow> MigrationFile list \<Rightarrow> string list
     \<Rightarrow> error + MigrationFile list" where
  "collectMigrationFiles env fs baseDir result [] = Inr result"
| "collectMigrationFiles env fs baseDir result (file # files) =
     (if endsWith file ''.sql'' then
        (let filePath = path_join env baseDir file
         in case computeChecksum env fs filePath of
              Inl e \<Rightarrow> Inl e
            | Inr digest \<Rightarrow>
                collectMigrationFiles env fs baseDir
                  (result @ [\<lparr>file_name = file, file_path = filePath, file_checksum = digest\<rparr>])
                  files)
      else collectMigrationFiles env fs baseDir result files)"

definition getMigrationFiles ::
  "'fs node_env \<Rightarrow> 'fs \<Rightarrow> string \<Rightarrow> error + MigrationFile list" where
  "getMigrationFiles env fs baseDir =
     (case fs_readdir env fs baseDir of
        Inl e \<Rightarrow> Inl e
      | Inr files \<Rightarrow> collectMigrationFiles env fs baseDir [] files)"

section \<open>JavaScript objects used as lookup tables\<close>

text \<open>
  \<^verbatim>\<open>Object.fromEntries\<close> builds an ordinary object: a later entry overwrites an
  earlier one with the same key. Reading \<^verbatim>\<open>obj[key]\<close> finds an own property, else
  a property inherited from \<^verbatim>\<open>Object.prototype\<close>, else \<^verbatim>\<open>undefined\<close>.
\<close>

datatype 'a property = Own 'a | Inherited | Undefined

definition object_prototype_keys :: "string list" where
  "object_prototype_keys =
     [''constructor'', ''__defineGetter__'', ''__defineSetter__'', ''hasOwnProperty'',
      ''__lookupGetter__'', ''__lookupSetter__'', ''isPrototypeOf'',
      ''propertyIsEnumerable'', ''toString'', ''valueOf'', ''__proto__'',
      ''toLocaleString'']"

definition fromEntries :: "(string \<times> 'a) list \<Rightarrow> (string \<rightharpoonup> 'a)" where
  "fromEntries entries = fold (\<lambda>(k, v) obj. obj(k \<mapsto> v)) entries Map.empty"

definition get_property :: "(string \<rightharpoonup> 'a) \<Rightarrow> string \<Rightarrow> 'a property" where
  "get_property obj k =
     (case obj k of
        Some v \<Rightarrow> Own v
      | None \<Rightarrow> if k \<in> set object_prototype_keys then Inherited else Undefined)"

text \<open>\<^verbatim>\<open>!obj[key]\<close>: only \<^verbatim>\<open>undefined\<close> is falsy here (rows and inherited members are objects).\<close>

fun falsy :: "'a property \<Rightarrow> bool" where
  "falsy Undefined = True"
| "falsy (Own v) = False"
| "falsy Inherited = False"

section \<open>The database\<close>

text \<open>
  Modelled from the spec: the database driver and the PostgreSQL server are not part
  of the sources (the spec lists them as the database access capability). A database
  is the state the statements of \<^verbatim>\<open>src/lib/index.js\<close> read and write: what
  \<^verbatim>\<open>SHOW search_path\<close> and \<^verbatim>\<open>SELECT user\<close> answer, the table
  \<^verbatim>\<open>__migrations\<close> (absent, or its rows in insertion order) with the schema the
  unqualified name resolves to, and the other tables as \<^verbatim>\<open>(schemaname, tablename)\<close>.
  A migration script is opaque: \<open>sql_file\<close>, a parameter of the operations below, maps
  a script's path and a database to an error or to the database it leaves.
\<close>

record Migration =
  name :: string
  checksum :: string
  round :: int
  applied_at :: nat

record database =
  search_path :: string
  current_user :: string
  ledger_schema :: string
  migrations_table :: "Migration list option"
  tables :: "(string \<times> string) list"

type_synonym script_runner = "string \<Rightarrow> database \<Rightarrow> error + database"

definition undefined_table :: error where
  "undefined_table =
     DatabaseError (''relation '' @ [CHR 0x22] @ ''__migrations'' @ [CHR 0x22] @ '' does not exist'')"

text \<open>
  \<^verbatim>\<open>sql.begin\<close>: the callback's database is committed when it returns and
  discarded when it throws.
\<close>

definition sql_begin ::
  "(database \<Rightarrow> error + (database \<times> 'a)) \<Rightarrow> database \<Rightarrow> database \<times> (error + 'a)" where
  "sql_begin callback sql =
     (case callback sql of
        Inl e \<Rightarrow> (sql, Inl e)
      | Inr (txn, result) \<Rightarrow> (txn, Inr result))"

text \<open>\<^verbatim>\<open>CREATE TABLE IF NOT EXISTS __migrations (...)\<close>\<close>

definition ensureMigrationsTableExists :: "database \<Rightarrow> error + database" where
  "ensureMigrationsTableExists sql =
     (case migrations_table sql of
        None \<Rightarrow> Inr (sql\<lparr>migrations_table := Some []\<rparr>)
      | Some rows \<Rightarrow> Inr sql)"

text \<open>\<^verbatim>\<open>LOCK TABLE __migrations IN EXCLUSIVE MODE\<close>: one process, so the lock changes nothing.\<close>

definition lockMigrationsTable :: "database \<Rightarrow> error + database" where
  "lockMigrationsTable sql =
     (case migrations_table sql of
        None \<Rightarrow> Inl undefined_table
      | Some rows \<Rightarrow> Inr sql)"

text \<open>
  \<^verbatim>\<open>SELECT * FROM __migrations ORDER BY round ASC, name ASC\<close>; names are compared
  code unit by code unit.
\<close>

definition getMigrations :: "database \<Rightarrow> error + Migration list" where
  "getMigrations sql =
     (case migrations_table sql of
        None \<Rightarrow> Inl undefined_table
      | Some rows \<Rightarrow> Inr (sort_key (\<lambda>m. (round m, name m)) rows))"

text \<open>
  \<^verbatim>\<open>INSERT INTO __migrations (name, checksum, round) VALUES (...)\<close>: \<open>name\<close> is the
  primary key, \<open>round\<close> a 32-bit \<^verbatim>\<open>INT\<close>, \<open>applied_at\<close> defaults to \<^verbatim>\<open>NOW()\<close>, the
  start time \<open>now\<close> of the transaction.
\<close>

definition insertMigration ::
  "nat \<Rightarrow> string \<Rightarrow> string \<Rightarrow> int \<Rightarrow> database \<Rightarrow> error + database" where
  "insertMigration now n c r sql =
     (case migrations_table sql of
        None \<Rightarrow> Inl undefined_table
      | Some rows \<Rightarrow>
          if n \<in> set (map name rows)
          then Inl (DatabaseError ''duplicate key value violates unique constraint'')
          else if r < - 2147483648 \<or> 2147483647 < r
          then Inl (DatabaseError ''integer out of range'')
          else Inr (sql\<lparr>migrations_table :=
                        Some (rows @ [\<lparr>name = n, checksum = c, round = r, applied_at = now\<rparr>])\<rparr>))"

section \<open>applyMigrations\<close>

definition applyMigration ::
  "script_runner \<Rightarrow> nat \<Rightarrow> database \<Rightarrow> MigrationFile \<Rightarrow> int \<Rightarrow> error + database" where
  "applyMigration sql_file now sql migration r =
     (case sql_file (file_path migration) sql of
        Inl e \<Rightarrow> Inl e
      | Inr sql1 \<Rightarrow>
          insertMigration now (file_name migration) (file_checksum migration) r sql1)"

text \<open>The loop "Check that all applied migration checksums match".\<close>

fun checkChecksums :: "(string \<rightharpoonup> MigrationFile) \<Rightarrow> Migration list \<Rightarrow> error + unit" where
  "checkChecksums migrationFilesLookup [] = Inr ()"
| "checkChecksums migrationFilesLookup (migration # migrations) =
     (case get_property migrationFilesLookup (name migration) of
        Undefined \<Rightarrow>
          Inl (TypeError (''Cannot read properties of undefined (reading ''
                 @ [CHR 0x27] @ ''checksum'' @ [CHR 0x27] @ '')''))
      | Inherited \<Rightarrow> Inl (ChecksumMismatch (name migration))
      | Own migrationFile \<Rightarrow>
          if checksum migration \<noteq> file_checksum migrationFile
          then Inl (ChecksumMismatch (name migration))
          else checkChecksums migrationFilesLookup migrations)"

text \<open>The loop "Apply all pending migrations".\<close>

fun applyPending ::
  "script_runner \<Rightarrow> nat \<Rightarrow> int \<Rightarrow> MigrationFile list \<Rightarrow> database \<Rightarrow> error + database" where
  "applyPending sql_file now r [] txn = Inr txn"
| "applyPending sql_file now r (migration # pendingMigrations) txn =
     (case applyMigration sql_file now txn migration r of
        Inl e \<Rightarrow> Inl e
      | Inr txn1 \<Rightarrow> applyPending sql_file now r pendingMigrations txn1)"

definition pendingOf :: "Migration list \<Rightarrow> MigrationFile list \<Rightarrow> MigrationFile list" where
  "pendingOf migrations migrationFiles =
     (let migrationsLookup = fromEntries (map (\<lambda>m. (name m, m)) migrations)
      in filter (\<lambda>m. falsy (get_property migrationsLookup (file_name m))) migrationFiles)"

text \<open>\<^verbatim>\<open>(migrations.at(-1)?.round ?? 0) + 1\<close>\<close>

definition roundOf :: "Migration list \<Rightarrow> int" where
  "roundOf migrations =
     (let lastMigrationRound = (case migrations of [] \<Rightarrow> 0 | m # ms \<Rightarrow> round (last migrations))
      in lastMigrationRound + 1)"

text \<open>The callback passed to \<^verbatim>\<open>sql.begin("ISOLATION LEVEL SERIALIZABLE", ...)\<close>.\<close>

definition applyTransaction ::
  "script_runner \<Rightarrow> nat \<Rightarrow> MigrationFile list \<Rightarrow> database \<Rightarrow> error + (database \<times> nat)" where
  "applyTransaction sql_file now migrationFiles txn =
     (let migrationFilesLookup = fromEntries (map (\<lambda>m. (file_name m, m)) migrationFiles)
      in case ensureMigrationsTableExists txn of
           Inl e \<Rightarrow> Inl e
         | Inr txn1 \<Rightarrow>
        (case lockMigrationsTable txn1 of
           Inl e \<Rightarrow> Inl e
         | Inr txn2 \<Rightarrow>
        (case getMigrations txn2 of
           Inl e \<Rightarrow> Inl e
         | Inr migrations \<Rightarrow>
             (let pendingMigrations = pendingOf migrations migrationFiles;
                  r = roundOf migrations
              in case checkChecksums migrationFilesLookup migrations of
                   Inl e \<Rightarrow> Inl e
                 | Inr u \<Rightarrow>
                (case applyPending sql_file now r pendingMigrations txn2 of
                   Inl e \<Rightarrow> Inl e
                 | Inr txn3 \<Rightarrow> Inr (txn3, length pendingMigrations))))))"

text \<open>
  The exported function: the database after the call, the value it resolves to, and
  the console lines it wrote.
\<close>

definition applyMigrations ::
  "'fs node_env \<Rightarrow> 'fs \<Rightarrow> script_runner \<Rightarrow> nat \<Rightarrow> database \<Rightarrow> string
     \<Rightarrow> database \<times> js_value \<times> console list" where
  "applyMigrations env fs sql_file now sql baseDir =
     (case getMigrationFiles env fs baseDir of
        Inl e \<Rightarrow> (sql, JSBoolean False, [Error ''Failed'' (message e)])
      | Inr migrationFiles \<Rightarrow>
          (case sql_begin (applyTransaction sql_file now migrationFiles) sql of
             (sql1, Inl e) \<Rightarrow> (sql1, JSBoolean False, [Error ''Failed'' (message e)])
           | (sql1, Inr appliedCount) \<Rightarrow>
               (sql1, JSBoolean True,
                [Log ''Applied'' (string_of_nat appliedCount @ '' migrations'')])))"

section \<open>resetDatabase\<close>

text \<open>
  The schema list: the search path split at commas, each piece trimmed, the piece
  \<^verbatim>\<open>"$user"\<close> replaced by the user name.
\<close>

definition resolveSchemas :: "string \<Rightarrow> string \<Rightarrow> string list" where
  "resolveSchemas path username =
     map (\<lambda>s. let trimmed = trim s
              in if trimmed = [CHR 0x22] @ ''$user'' @ [CHR 0x22] then username else trimmed)
       (split_on CHR '','' path)"

text \<open>The view \<^verbatim>\<open>pg_tables\<close>, and \<^verbatim>\<open>DROP TABLE IF EXISTS s.t CASCADE\<close>.\<close>

definition pg_tables :: "database \<Rightarrow> (string \<times> string) list" where
  "pg_tables sql =
     (case migrations_table sql of
        None \<Rightarrow> []
      | Some rows \<Rightarrow> [(ledger_schema sql, ''__migrations'')]) @ tables sql"

definition dropTable :: "string \<times> string \<Rightarrow> database \<Rightarrow> database" where
  "dropTable t sql =
     sql\<lparr>migrations_table :=
           (if t = (ledger_schema sql, ''__migrations'') then None else migrations_table sql),
         tables := removeAll t (tables sql)\<rparr>"

text \<open>The callback of the first transaction: read the settings, list the tables, drop each.\<close>

definition resetTransaction :: "database \<Rightarrow> error + (database \<times> unit)" where
  "resetTransaction txn =
     (let username = current_user txn;
          schemas = resolveSchemas (search_path txn) username;
          found = filter (\<lambda>(schemaname, tablename). schemaname \<in> set schemas) (pg_tables txn)
      in Inr (fold dropTable found txn, ()))"

text \<open>
  \<open>answer\<close> is what the confirmation prompt returns; it is asked only without \<open>force\<close>.
\<close>

definition resetDatabase ::
  "'fs node_env \<Rightarrow> 'fs \<Rightarrow> script_runner \<Rightarrow> nat \<Rightarrow> bool \<Rightarrow> database \<Rightarrow> string \<Rightarrow> bool
     \<Rightarrow> database \<times> js_value \<times> console list" where
  "resetDatabase env fs sql_file now answer sql baseDir force =
     (if \<not> force \<and> \<not> answer then (sql, JSBoolean False, [Log ''Aborted'' []])
      else
        (case sql_begin resetTransaction sql of
           (sql1, Inl e) \<Rightarrow> (sql1, JSBoolean False, [Error ''Failed'' (message e)])
         | (sql1, Inr u) \<Rightarrow>
             (case applyMigrations env fs sql_file now sql1 baseDir of
                (sql2, result, out) \<Rightarrow> (sql2, result, Log ''Reset'' ''Tables dropped'' # out))))"

section \<open>Notions used to state the properties\<close>

text \<open>The rows of the ledger, none when the table is absent.\<close>

definition ledger :: "database \<Rightarrow> Migration list" where
  "ledger sql = (case migrations_table sql of None \<Rightarrow> [] | Some rows \<Rightarrow> rows)"

text \<open>
  The rows in read order, the database once the table is ensured, and the lookup
  table of a catalog: the values \<open>applyTransaction\<close> computes on its way.
\<close>

definition listApplied :: "database \<Rightarrow> Migration list" where
  "listApplied sql = sort_key (\<lambda>m. (round m, name m)) (ledger sql)"

definition ensured :: "database \<Rightarrow> database" where
  "ensured sql = sql\<lparr>migrations_table := Some (ledger sql)\<rparr>"

definition catalogLookup :: "MigrationFile list \<Rightarrow> (string \<rightharpoonup> MigrationFile)" where
  "catalogLookup migrationFiles = fromEntries (map (\<lambda>m. (file_name m, m)) migrationFiles)"

text \<open>
  The catalog entry of a listed name, when its file can be read, and the database the
  first transaction of \<open>resetDatabase\<close> commits.
\<close>

definition catalogEntry :: "'fs node_env \<Rightarrow> 'fs \<Rightarrow> string \<Rightarrow> string \<Rightarrow> MigrationFile" where
  "catalogEntry env fs baseDir file =
     \<lparr>file_name = file,
      file_path = path_join env baseDir file,
      file_checksum =
        (case fs_read env fs (path_join env baseDir file) of
           Inl e \<Rightarrow> []
         | Inr content \<Rightarrow> sha256_hex env content)\<rparr>"

definition afterDrop :: "database \<Rightarrow> database" where
  "afterDrop sql = fst (sql_begin resetTransaction sql)"

text \<open>
  The pending migrations read off a directory listing: the listed names that end in
  \<^verbatim>\<open>.sql\<close> and are not in the ledger, in listing order, each with its catalog
  entry.
\<close>

definition listedPending ::
  "'fs node_env \<Rightarrow> 'fs \<Rightarrow> string \<Rightarrow> database \<Rightarrow> string list \<Rightarrow> MigrationFile list" where
  "listedPending env fs baseDir sql listing =
     map (catalogEntry env fs baseDir)
       (filter (\<lambda>f. endsWith f ''.sql'' \<and> f \<notin> set (map name (ledger sql))) listing)"

text \<open>The row \<open>applyMigration\<close> inserts for a catalog entry.\<close>

definition recorded :: "nat \<Rightarrow> int \<Rightarrow> MigrationFile \<Rightarrow> Migration" where
  "recorded now r m =
     \<lparr>name = file_name m, checksum = file_checksum m, round = r, applied_at = now\<rparr>"

text \<open>
  The migrations \<open>ms\<close> were applied one after the other, in the order of the list:
  there is a sequence of databases from \<open>start\<close> to \<open>final\<close> in which the script
  of the \<open>i\<close>-th migration ran on the \<open>i\<close>-th database and the insertion of its
  ledger row gave the next one.
\<close>

definition appliedInOrder ::
  "script_runner \<Rightarrow> nat \<Rightarrow> int \<Rightarrow> MigrationFile list \<Rightarrow> database \<Rightarrow> database \<Rightarrow> bool" where
  "appliedInOrder sql_file now r ms start final \<longleftrightarrow>
     (\<exists>states. length states = Suc (length ms) \<and> states ! 0 = start
        \<and> states ! length ms = final
        \<and> (\<forall>i < length ms. \<exists>after.
               sql_file (file_path (ms ! i)) (states ! i) = Inr after
               \<and> insertMigration now (file_name (ms ! i)) (file_checksum (ms ! i)) r after
                   = Inr (states ! Suc i)))"

text \<open>
  The scripts never write the ledger: a script that succeeds leaves the table
  \<^verbatim>\<open>__migrations\<close> as it found it. (The spec: rows are created by the apply
  operation only.)
\<close>

definition leaves_ledger :: "script_runner \<Rightarrow> bool" where
  "leaves_ledger sql_file \<longleftrightarrow>
     (\<forall>p sql sql1. sql_file p sql = Inr sql1 \<longrightarrow> migrations_table sql1 = migrations_table sql)"

section \<open>A small file system, three scripts and a database for the examples\<close>

text \<open>
  A disk maps an absolute directory to its entries (name and content) in the order
  the listing returns them; relative paths are taken from \<^verbatim>\<open>/cwd\<close>. The digest of
  the examples tags the content.
\<close>

type_synonym disk = "(string \<times> (string \<times> string) list) list"

definition absolute :: "string \<Rightarrow> string" where
  "absolute p = (if take 1 p = ''/'' then p else ''/cwd/'' @ p)"

definition no_entry :: error where
  "no_entry = SystemError ''ENOENT: no such file or directory''"

text \<open>
  The lowercase mapping of the examples: the part of the Unicode mapping for the
  capitals A to Z, the Kelvin sign (U+212A, lower case \<^verbatim>\<open>k\<close>) and the dotted
  capital I (U+0130, lower case \<^verbatim>\<open>i\<close> followed by U+0307); other code units stay.
\<close>

definition demo_lower_unit :: "code_unit \<Rightarrow> js_string" where
  "demo_lower_unit c =
     (if 0x41 \<le> c \<and> c \<le> 0x5A then [c + 0x20]
      else if c = 0x212A then [0x6B]
      else if c = 0x0130 then [0x69, 0x0307]
      else [c])"

definition demo_lower :: "js_string \<Rightarrow> js_string" where
  "demo_lower s = concat (map demo_lower_unit s)"

definition demo_letter :: "code_unit \<Rightarrow> bool" where
  "demo_letter c \<longleftrightarrow>
     (0x41 \<le> c \<and> c \<le> 0x5A) \<or> (0x61 \<le> c \<and> c \<le> 0x7A) \<or> c = 0x212A \<or> c = 0x0130"

definition disk_env :: "disk node_env" where
  "disk_env =
     \<lparr>path_resolve = absolute,
      path_join = (\<lambda>d f. d @ ''/'' @ f),
      fs_readdir = (\<lambda>fs d. case map_of fs (absolute d) of
                      None \<Rightarrow> Inl no_entry
                    | Some entries \<Rightarrow> Inr (map fst entries)),
      fs_read = (\<lambda>fs p. case concat (map (\<lambda>(d, entries).
                              concat (map (\<lambda>(f, c). if d @ ''/'' @ f = absolute p then [c] else [])
                                entries)) fs) of
                      [] \<Rightarrow> Inl no_entry
                    | c # cs \<Rightarrow> Inr c),
      fs_mkdir = (\<lambda>fs d. Inr (if d \<in> set (map fst fs) then fs else fs @ [(d, [])])),
      fs_writeFile = (\<lambda>fs p c.
                      if list_ex (\<lambda>(d, entries). take (length d + 1) p = d @ ''/'') fs
                      then Inr (map (\<lambda>(d, entries).
                                  if take (length d + 1) p = d @ ''/''
                                  then (d, filter (\<lambda>(f, old). f \<noteq> drop (length d + 1) p) entries
                                            @ [(drop (length d + 1) p, c)])
                                  else (d, entries)) fs)
                      else Inl no_entry),
      sha256_hex = (\<lambda>content. ''sha256:'' @ content),
      toLowerCase = demo_lower\<rparr>"

text \<open>
  \<^verbatim>\<open>init\<close> creates a table, \<^verbatim>\<open>add_users\<close> creates the table \<^verbatim>\<open>users\<close>,
  \<^verbatim>\<open>add_index\<close> needs that table; any other script is invalid SQL.
\<close>

definition demo_scripts :: script_runner where
  "demo_scripts p sql =
     (if endsWith p ''_init.sql''
      then Inr (sql\<lparr>tables := tables sql @ [(''public'', ''settings'')]\<rparr>)
      else if endsWith p ''_add_users.sql''
      then Inr (sql\<lparr>tables := tables sql @ [(''public'', ''users'')]\<rparr>)
      else if endsWith p ''_add_index.sql''
      then (if (''public'', ''users'') \<in> set (tables sql) then Inr sql
            else Inl (DatabaseError ''relation users does not exist''))
      else Inl (DatabaseError ''syntax error''))"

definition fresh_db :: database where
  "fresh_db =
     \<lparr>search_path = [CHR 0x22] @ ''$user'' @ [CHR 0x22] @ '', public'',
      current_user = ''app'', ledger_schema = ''public'',
      migrations_table = None, tables = []\<rparr>"

definition init_sql :: "string \<times> string" where
  "init_sql = (''20230101000000_init.sql'', ''create settings'')"

definition add_users_sql :: "string \<times> string" where
  "add_users_sql = (''20230102000000_add_users.sql'', ''create users'')"

definition add_index_sql :: "string \<times> string" where
  "add_index_sql = (''20230103000000_add_index.sql'', ''create index'')"

definition broken_sql :: "string \<times> string" where
  "broken_sql = (''20230104000000_broken.sql'', ''selec'')"

definition migrations_dir :: "(string \<times> string) list \<Rightarrow> disk" where
  "migrations_dir entries = [(''/cwd/migrations'', entries)]"

text \<open>The catalog entry the example file system yields for a file of \<^verbatim>\<open>migrations\<close>.\<close>

definition demo_entry :: "string \<times> string \<Rightarrow> MigrationFile" where
  "demo_entry f =
     \<lparr>file_name = fst f, file_path = ''migrations/'' @ fst f,
      file_checksum = ''sha256:'' @ snd f\<rparr>"

text \<open>The database after \<^verbatim>\<open>init\<close> and \<^verbatim>\<open>add_users\<close> were applied at time 7.\<close>

definition applied_db :: database where
  "applied_db =
     fresh_db\<lparr>migrations_table :=
                Some [\<lparr>name = ''20230101000000_init.sql'', checksum = ''sha256:create settings'',
                        round = 1, applied_at = 7\<rparr>,
                      \<lparr>name = ''20230102000000_add_users.sql'', checksum = ''sha256:create users'',
                        round = 1, applied_at = 7\<rparr>],
              tables := [(''public'', ''settings''), (''public'', ''users'')]\<rparr>"

text \<open>
  A database whose search path names the schema \<^verbatim>\<open>App\<close> in quotes (as
  \<^verbatim>\<open>SHOW search_path\<close> prints a name with a capital): the ledger and a table live
  in \<^verbatim>\<open>App\<close>, two tables in \<^verbatim>\<open>public\<close>; \<^verbatim>\<open>init\<close> was applied in round 1
  and \<^verbatim>\<open>add_users\<close> in round 2.
\<close>

definition quoted_db :: database where
  "quoted_db =
     \<lparr>search_path = [CHR 0x22] @ ''App'' @ [CHR 0x22] @ '', public'',
      current_user = ''app'', ledger_schema = ''App'',
      migrations_table =
        Some [\<lparr>name = ''20230101000000_init.sql'', checksum = ''sha256:create settings'',
                round = 1, applied_at = 7\<rparr>,
              \<lparr>name = ''20230102000000_add_users.sql'', checksum = ''sha256:create users'',
                round = 2, applied_at = 8\<rparr>],
      tables = [(''App'', ''accounts''), (''public'', ''settings''), (''public'', ''users'')]\<rparr>"

section \<open>Auxiliary facts\<close>

subsection \<open>Lookup tables\<close>

lemma fold_update_None:
  "fold (\<lambda>(k, v) obj. obj(k \<mapsto> v)) es m k = None \<longleftrightarrow> m k = None \<and> k \<notin> fst ` set es"
  by (induction es arbitrary: m) (auto split: prod.splits)

lemma fold_update_Some:
  "fold (\<lambda>(k, v) obj. obj(k \<mapsto> v)) es m k = Some v \<Longrightarrow> m k = Some v \<or> (k, v) \<in> set es"
proof (induction es arbitrary: m)
  case Nil
  then show ?case by simp
next
  case (Cons e es)
  obtain k1 v1 where e: "e = (k1, v1)" by (cases e)
  from Cons.prems e have "fold (\<lambda>(k, v) obj. obj(k \<mapsto> v)) es (m(k1 \<mapsto> v1)) k = Some v"
    by (simp only: fold_simps o_apply prod.case)
  from Cons.IH [OF this] have "(m(k1 \<mapsto> v1)) k = Some v \<or> (k, v) \<in> set es" .
  with e show ?case by (auto split: if_splits)
qed

lemma fromEntries_None: "fromEntries es k = None \<longleftrightarrow> k \<notin> fst ` set es"
  by (simp add: fromEntries_def fold_update_None)

lemma fromEntries_Some: "fromEntries es k = Some v \<Longrightarrow> (k, v) \<in> set es"
  using fold_update_Some [of es Map.empty k v] by (simp add: fromEntries_def)

lemma sql_suffix_not_inherited: "endsWith k ''.sql'' \<Longrightarrow> k \<notin> set object_prototype_keys"
  by (auto simp: endsWith_def object_prototype_keys_def)

lemma falsy_get_property:
  "falsy (get_property obj k) \<longleftrightarrow> obj k = None \<and> k \<notin> set object_prototype_keys"
  by (simp add: get_property_def split: option.splits)

lemma pendingOf_filter:
  "pendingOf migrations migrationFiles =
     filter (\<lambda>m. file_name m \<notin> set (map name migrations)
                 \<and> file_name m \<notin> set object_prototype_keys) migrationFiles"
  by (simp add: pendingOf_def falsy_get_property fromEntries_None image_image)

lemma ensure_eq: "ensureMigrationsTableExists sql = Inr (ensured sql)"
  by (cases sql) (simp add: ensureMigrationsTableExists_def ensured_def ledger_def split: option.splits)

lemma lock_ensured: "lockMigrationsTable (ensured sql) = Inr (ensured sql)"
  by (simp add: lockMigrationsTable_def ensured_def)

lemma getMigrations_ensured: "getMigrations (ensured sql) = Inr (listApplied sql)"
  by (simp add: getMigrations_def ensured_def listApplied_def)

lemma applyTransaction_eq:
  "applyTransaction sql_file now migrationFiles sql =
     (case checkChecksums (catalogLookup migrationFiles) (listApplied sql) of
        Inl e \<Rightarrow> Inl e
      | Inr u \<Rightarrow>
          (case applyPending sql_file now (roundOf (listApplied sql))
                  (pendingOf (listApplied sql) migrationFiles) (ensured sql) of
             Inl e \<Rightarrow> Inl e
           | Inr txn \<Rightarrow> Inr (txn, length (pendingOf (listApplied sql) migrationFiles))))"
  by (simp add: applyTransaction_def ensure_eq lock_ensured getMigrations_ensured catalogLookup_def Let_def)

lemma applyPending_append:
  "applyPending sql_file now r (xs @ ys) txn =
     (case applyPending sql_file now r xs txn of
        Inl e \<Rightarrow> Inl e
      | Inr txn1 \<Rightarrow> applyPending sql_file now r ys txn1)"
  by (induction xs arbitrary: txn) (auto split: sum.splits)

lemma applyMigration_ledger:
  assumes "leaves_ledger sql_file" and "applyMigration sql_file now txn m r = Inr txn1"
  shows "migrations_table txn \<noteq> None \<and> ledger txn1 = ledger txn @ [recorded now r m]"
proof -
  from assms(2) obtain t where t: "sql_file (file_path m) txn = Inr t"
    and ins: "insertMigration now (file_name m) (file_checksum m) r t = Inr txn1"
    by (auto simp: applyMigration_def split: sum.splits)
  from assms(1) t have same: "migrations_table t = migrations_table txn"
    by (auto simp: leaves_ledger_def)
  from ins same show ?thesis
    by (auto simp: insertMigration_def ledger_def recorded_def split: option.splits if_splits)
qed

lemma applyPending_ledger:
  assumes "leaves_ledger sql_file"
  shows "applyPending sql_file now r ps txn = Inr txn1 \<Longrightarrow>
         ledger txn1 = ledger txn @ map (recorded now r) ps"
proof (induction ps arbitrary: txn)
  case Nil
  then show ?case by simp
next
  case (Cons p ps)
  from Cons.prems obtain t where t: "applyMigration sql_file now txn p r = Inr t"
    and rest: "applyPending sql_file now r ps t = Inr txn1"
    by (auto split: sum.splits)
  from applyMigration_ledger [OF assms t] Cons.IH [OF rest] show ?case by simp
qed

lemma ledger_ensured: "ledger (ensured sql) = ledger sql"
  by (simp add: ensured_def ledger_def)

lemma applyMigrations_cases:
  "applyMigrations env fs sql_file now sql baseDir =
     (case getMigrationFiles env fs baseDir of
        Inl e \<Rightarrow> (sql, JSBoolean False, [Error ''Failed'' (message e)])
      | Inr migrationFiles \<Rightarrow>
          (case applyTransaction sql_file now migrationFiles sql of
             Inl e \<Rightarrow> (sql, JSBoolean False, [Error ''Failed'' (message e)])
           | Inr (txn, appliedCount) \<Rightarrow>
               (txn, JSBoolean True,
                [Log ''Applied'' (string_of_nat appliedCount @ '' migrations'')])))"
  by (auto simp: applyMigrations_def sql_begin_def split: sum.splits prod.splits)

lemma applyMigrations_failure:
  "applyMigrations env fs sql_file now sql baseDir = (sql1, JSBoolean False, out) \<Longrightarrow>
     sql1 = sql \<and> (\<exists>e. out = [Error ''Failed'' (message e)])"
  by (auto simp: applyMigrations_cases split: sum.splits prod.splits)

lemma applyMigrations_success:
  assumes "applyMigrations env fs sql_file now sql baseDir = (sql1, JSBoolean True, out)"
  obtains migrationFiles where
    "getMigrationFiles env fs baseDir = Inr migrationFiles"
    "checkChecksums (catalogLookup migrationFiles) (listApplied sql) = Inr ()"
    "applyPending sql_file now (roundOf (listApplied sql))
        (pendingOf (listApplied sql) migrationFiles) (ensured sql) = Inr sql1"
    "out = [Log ''Applied''
             (string_of_nat (length (pendingOf (listApplied sql) migrationFiles)) @ '' migrations'')]"
  using assms
  by (auto simp: applyMigrations_cases applyTransaction_eq split: sum.splits prod.splits)

lemma sorted_le_last:
  fixes f :: "'a \<Rightarrow> 'b::linorder"
  shows "sorted (map f xs) \<Longrightarrow> x \<in> set xs \<Longrightarrow> f x \<le> f (last xs)"
  by (induction xs) auto

lemma sort_key_not_Nil: "xs \<noteq> [] \<Longrightarrow> sort_key f xs \<noteq> []"
proof
  assume "xs \<noteq> []" and "sort_key f xs = []"
  then have "length xs = 0" using length_sort [of f xs] by simp
  with \<open>xs \<noteq> []\<close> show False by simp
qed

lemma round_last_sorted:
  fixes rows :: "Migration list"
  assumes "rows \<noteq> []"
  shows "round (last (sort_key (\<lambda>m. (round m, name m)) rows)) = Max (round ` set rows)"
proof -
  let ?k = "\<lambda>m::Migration. (round m, name m)"
  let ?s = "sort_key ?k rows"
  have ne: "?s \<noteq> []" using assms by (rule sort_key_not_Nil)
  have srt: "sorted (map ?k ?s)" by (rule sorted_sort_key)
  have mem: "last ?s \<in> set rows" using ne last_in_set [of ?s] by simp
  have ub: "round m \<le> round (last ?s)" if "m \<in> set rows" for m
  proof -
    from that have "m \<in> set ?s" by simp
    with srt have "?k m \<le> ?k (last ?s)" by (rule sorted_le_last)
    then show ?thesis by (simp add: less_eq_prod_def) linarith
  qed
  have fin: "finite (round ` set rows)" by simp
  have "Max (round ` set rows) = round (last ?s)"
  proof (rule Max_eqI [OF fin])
    show "round (last ?s) \<in> round ` set rows" using mem by (rule imageI)
  next
    fix y assume "y \<in> round ` set rows"
    then obtain m where "m \<in> set rows" "y = round m" by blast
    then show "y \<le> round (last ?s)" using ub by simp
  qed
  then show ?thesis by simp
qed

lemma roundOf_listApplied:
  "roundOf (listApplied sql) = (if ledger sql = [] then 1 else Max (round ` set (ledger sql)) + 1)"
proof (cases "ledger sql = []")
  case True
  then show ?thesis by (simp add: roundOf_def listApplied_def)
next
  case False
  then have "listApplied sql \<noteq> []" unfolding listApplied_def by (rule sort_key_not_Nil)
  then have "roundOf (listApplied sql) = round (last (listApplied sql)) + 1"
    by (cases "listApplied sql") (simp_all add: roundOf_def)
  with False show ?thesis by (simp add: listApplied_def round_last_sorted)
qed


subsection \<open>The catalog\<close>

lemma collect_Inr:
  "collectMigrationFiles env fs baseDir result files = Inr r \<Longrightarrow>
     r = result @ map (catalogEntry env fs baseDir) (filter (\<lambda>f. endsWith f ''.sql'') files)"
proof (induction files arbitrary: result)
  case Nil
  then show ?case by simp
next
  case (Cons x xs)
  show ?case
  proof (cases "endsWith x ''.sql''")
    case False
    with Cons show ?thesis by simp
  next
    case True
    with Cons.prems obtain content where
      rd: "fs_read env fs (path_join env baseDir x) = Inr content"
      and rest: "collectMigrationFiles env fs baseDir
                   (result @ [\<lparr>file_name = x, file_path = path_join env baseDir x,
                                file_checksum = sha256_hex env content\<rparr>]) xs = Inr r"
      by (auto simp: computeChecksum_def Let_def split: sum.splits)
    from Cons.IH [OF rest] rd True show ?thesis
      by (simp add: catalogEntry_def)
  qed
qed

lemma collect_readable:
  "(\<forall>f \<in> set files. endsWith f ''.sql'' \<longrightarrow>
       (\<exists>content. fs_read env fs (path_join env baseDir f) = Inr content)) \<Longrightarrow>
   collectMigrationFiles env fs baseDir result files =
     Inr (result @ map (catalogEntry env fs baseDir) (filter (\<lambda>f. endsWith f ''.sql'') files))"
proof (induction files arbitrary: result)
  case Nil
  then show ?case by simp
next
  case (Cons x xs)
  show ?case
  proof (cases "endsWith x ''.sql''")
    case False
    with Cons show ?thesis by simp
  next
    case True
    with Cons.prems obtain content where
      rd: "fs_read env fs (path_join env baseDir x) = Inr content" by auto
    from Cons.prems have "\<forall>f \<in> set xs. endsWith f ''.sql'' \<longrightarrow>
       (\<exists>content. fs_read env fs (path_join env baseDir f) = Inr content)" by simp
    from Cons.IH [OF this] rd True show ?thesis
      by (simp add: computeChecksum_def catalogEntry_def)
  qed
qed

lemma collect_unreadable:
  "f \<in> set files \<Longrightarrow> endsWith f ''.sql'' \<Longrightarrow>
   fs_read env fs (path_join env baseDir f) = Inl e \<Longrightarrow>
   \<exists>e1. collectMigrationFiles env fs baseDir result files = Inl e1"
proof (induction files arbitrary: result)
  case Nil
  then show ?case by simp
next
  case (Cons x xs)
  show ?case
  proof (cases "x = f")
    case True
    with Cons.prems show ?thesis by (simp add: computeChecksum_def)
  next
    case False
    with Cons.prems have "f \<in> set xs" by simp
    from Cons.IH [OF this Cons.prems(2,3)] show ?thesis
      by (auto simp: computeChecksum_def Let_def split: sum.splits)
  qed
qed

lemma getMigrationFiles_Inr:
  assumes "getMigrationFiles env fs baseDir = Inr migrationFiles"
  obtains listing where "fs_readdir env fs baseDir = Inr listing"
    and "migrationFiles = map (catalogEntry env fs baseDir) (filter (\<lambda>f. endsWith f ''.sql'') listing)"
  using assms collect_Inr [of env fs baseDir "[]"]
  by (auto simp: getMigrationFiles_def split: sum.splits)

lemma catalog_names:
  assumes "getMigrationFiles env fs baseDir = Inr migrationFiles"
    and "fs_readdir env fs baseDir = Inr listing"
  shows "map file_name migrationFiles = filter (\<lambda>f. endsWith f ''.sql'') listing"
proof -
  from assms(1) obtain l where l: "fs_readdir env fs baseDir = Inr l"
    and m: "migrationFiles = map (catalogEntry env fs baseDir) (filter (\<lambda>f. endsWith f ''.sql'') l)"
    by (rule getMigrationFiles_Inr)
  from l assms(2) have "l = listing" by simp
  with m show ?thesis by (simp add: catalogEntry_def comp_def)
qed

lemma catalog_names_sql:
  assumes "getMigrationFiles env fs baseDir = Inr migrationFiles" and "m \<in> set migrationFiles"
  shows "endsWith (file_name m) ''.sql''"
proof -
  from assms(1) obtain l where
    "migrationFiles = map (catalogEntry env fs baseDir) (filter (\<lambda>f. endsWith f ''.sql'') l)"
    by (rule getMigrationFiles_Inr)
  with assms(2) show ?thesis by (auto simp: catalogEntry_def)
qed

lemma pendingOf_catalog:
  assumes "getMigrationFiles env fs baseDir = Inr migrationFiles"
  shows "pendingOf migrations migrationFiles =
           filter (\<lambda>m. file_name m \<notin> set (map name migrations)) migrationFiles"
  unfolding pendingOf_filter
  by (rule filter_cong [OF refl])
     (use catalog_names_sql [OF assms] sql_suffix_not_inherited in blast)

lemma set_listApplied: "set (listApplied sql) = set (ledger sql)"
  by (simp add: listApplied_def)

subsection \<open>The first transaction of a reset\<close>

lemma fold_dropTable:
  "fold dropTable ts sql =
     sql\<lparr>migrations_table :=
           (if (ledger_schema sql, ''__migrations'') \<in> set ts then None else migrations_table sql),
         tables := filter (\<lambda>t. t \<notin> set ts) (tables sql)\<rparr>"
proof (induction ts arbitrary: sql)
  case Nil
  then show ?case by simp
next
  case (Cons t ts)
  have step: "fold dropTable (t # ts) sql = fold dropTable ts (dropTable t sql)"
    by simp
  have filt: "filter (\<lambda>x. x \<notin> set ts) (removeAll t xs)
                = filter (\<lambda>x. x \<notin> set (t # ts)) xs" for xs :: "(string \<times> string) list"
    by (induction xs) auto
  show ?case
    unfolding step Cons.IH
    by (simp add: dropTable_def filt)
qed

lemma afterDrop_eq:
  "afterDrop sql =
     fold dropTable
       (filter (\<lambda>(schemaname, tablename).
                  schemaname \<in> set (resolveSchemas (search_path sql) (current_user sql)))
          (pg_tables sql)) sql"
  by (simp add: afterDrop_def sql_begin_def resetTransaction_def Let_def)

lemma afterDrop_fields:
  "tables (afterDrop sql) =
     filter (\<lambda>(schemaname, tablename).
               schemaname \<notin> set (resolveSchemas (search_path sql) (current_user sql)))
       (tables sql)"
  "ledger_schema (afterDrop sql) = ledger_schema sql"
  "migrations_table (afterDrop sql) =
     (if ledger_schema sql \<in> set (resolveSchemas (search_path sql) (current_user sql))
      then None else migrations_table sql)"
proof -
  let ?S = "set (resolveSchemas (search_path sql) (current_user sql))"
  let ?found = "filter (\<lambda>(schemaname, tablename). schemaname \<in> ?S) (pg_tables sql)"
  have tabs: "filter (\<lambda>t. t \<notin> set ?found) (tables sql)
          = filter (\<lambda>(schemaname, tablename). schemaname \<notin> ?S) (tables sql)"
    by (rule filter_cong) (auto simp: pg_tables_def)
  have "tables (afterDrop sql) = filter (\<lambda>t. t \<notin> set ?found) (tables sql)"
    by (simp add: afterDrop_eq fold_dropTable)
  then show "tables (afterDrop sql)
               = filter (\<lambda>(schemaname, tablename). schemaname \<notin> ?S) (tables sql)"
    using tabs by (rule trans)
  show "ledger_schema (afterDrop sql) = ledger_schema sql"
    by (simp add: afterDrop_eq fold_dropTable)
  have m: "migrations_table (afterDrop sql)
             = (if (ledger_schema sql, ''__migrations'') \<in> set ?found then None
                else migrations_table sql)"
    by (simp add: afterDrop_eq fold_dropTable)
  show "migrations_table (afterDrop sql) = (if ledger_schema sql \<in> ?S then None else migrations_table sql)"
  proof (cases "migrations_table sql")
    case None
    with m show ?thesis by simp
  next
    case (Some rows)
    then have "(ledger_schema sql, ''__migrations'') \<in> set ?found \<longleftrightarrow> ledger_schema sql \<in> ?S"
      by (auto simp: pg_tables_def)
    with m show ?thesis by simp
  qed
qed

lemma pg_tables_afterDrop:
  "pg_tables (afterDrop sql) =
     filter (\<lambda>(schemaname, tablename).
               schemaname \<notin> set (resolveSchemas (search_path sql) (current_user sql)))
       (pg_tables sql)"
  by (cases "migrations_table sql") (simp_all add: pg_tables_def afterDrop_fields)

lemma ledger_afterDrop:
  assumes "migrations_table sql = None
           \<or> ledger_schema sql \<in> set (resolveSchemas (search_path sql) (current_user sql))"
  shows "ledger (afterDrop sql) = []"
  using assms by (auto simp: ledger_def afterDrop_fields)

lemma resetDatabase_proceeds:
  assumes "force \<or> answer"
  shows "resetDatabase env fs sql_file now answer sql baseDir force =
           (case applyMigrations env fs sql_file now (afterDrop sql) baseDir of
              (sql2, result, out) \<Rightarrow> (sql2, result, Log ''Reset'' ''Tables dropped'' # out))"
  using assms
  by (auto simp: resetDatabase_def afterDrop_def sql_begin_def resetTransaction_def Let_def
           split: prod.splits)

text \<open>
  When the ledger table, if there is one, lives in a schema of the list that
  \<open>resolveSchemas\<close> computes, a reset that succeeds records the whole catalog in
  round 1.
\<close>

lemma reset_replays_when_ledger_dropped:
  assumes go: "force \<or> answer"
    and scripts: "leaves_ledger sql_file"
    and visible: "migrations_table sql = None
                  \<or> ledger_schema sql \<in> set (resolveSchemas (search_path sql) (current_user sql))"
    and files: "getMigrationFiles env fs baseDir = Inr migrationFiles"
    and ok: "resetDatabase env fs sql_file now answer sql baseDir force = (sql2, JSBoolean True, out)"
  shows "pg_tables (afterDrop sql) =
           filter (\<lambda>(schemaname, tablename).
                     schemaname \<notin> set (resolveSchemas (search_path sql) (current_user sql)))
             (pg_tables sql)
       \<and> (\<exists>rest. out = Log ''Reset'' ''Tables dropped'' # rest
              \<and> applyMigrations env fs sql_file now (afterDrop sql) baseDir
                  = (sql2, JSBoolean True, rest))
       \<and> ledger sql2 = map (recorded now 1) migrationFiles"
proof -
  from ok obtain rest where out: "out = Log ''Reset'' ''Tables dropped'' # rest"
    and run: "applyMigrations env fs sql_file now (afterDrop sql) baseDir
                = (sql2, JSBoolean True, rest)"
    by (auto simp: resetDatabase_proceeds [OF go] split: prod.splits)
  have empty: "ledger (afterDrop sql) = []"
    using visible by (rule ledger_afterDrop)
  then have none: "listApplied (afterDrop sql) = []"
    by (simp add: listApplied_def)
  from run obtain ms where
    ms: "getMigrationFiles env fs baseDir = Inr ms"
    and loop: "applyPending sql_file now (roundOf (listApplied (afterDrop sql)))
            (pendingOf (listApplied (afterDrop sql)) ms) (ensured (afterDrop sql)) = Inr sql2"
    by (rule applyMigrations_success)
  from ms files have same: "ms = migrationFiles" by simp
  have all: "pendingOf [] migrationFiles = migrationFiles"
    by (simp add: pendingOf_catalog [OF files])
  have one: "roundOf [] = 1"
    by (simp add: roundOf_def)
  have "ledger sql2 = map (recorded now 1) migrationFiles"
    using applyPending_ledger [OF scripts loop]
    by (simp add: ledger_ensured empty none same all one)
  with pg_tables_afterDrop out run show ?thesis by simp
qed

subsection \<open>The catalog does not use the resolved path\<close>

lemma collect_ignores_resolve:
  "collectMigrationFiles (env\<lparr>path_resolve := r\<rparr>) fs baseDir result files
     = collectMigrationFiles env fs baseDir result files"
proof (induction files arbitrary: result)
  case Nil
  then show ?case by simp
next
  case (Cons x xs)
  have same: "computeChecksum (env\<lparr>path_resolve := r\<rparr>) fs p = computeChecksum env fs p" for p
    by (simp add: computeChecksum_def split: sum.splits)
  show ?case by (simp add: same Cons.IH Let_def split: sum.splits)
qed

subsection \<open>The integrity check\<close>

lemma catalogLookup_Some:
  "catalogLookup migrationFiles k = Some f \<Longrightarrow> f \<in> set migrationFiles \<and> file_name f = k"
  using fromEntries_Some [of "map (\<lambda>m. (file_name m, m)) migrationFiles" k f]
  by (auto simp: catalogLookup_def)

lemma catalogLookup_present:
  assumes "k \<in> set (map file_name migrationFiles)"
  obtains f where "catalogLookup migrationFiles k = Some f"
proof -
  have "catalogLookup migrationFiles k \<noteq> None"
    using assms by (simp add: catalogLookup_def fromEntries_None image_image)
  then show ?thesis using that by blast
qed

text \<open>
  When the file of every ledger row is in the catalog, the loop stops at the first
  row in read order whose checksum differs and raises the integrity error for it.
\<close>

lemma checkChecksums_mismatch:
  assumes "\<forall>m \<in> set migrations. name m \<in> set (map file_name migrationFiles)"
    and "\<exists>m \<in> set migrations. \<exists>f. catalogLookup migrationFiles (name m) = Some f
                                    \<and> file_checksum f \<noteq> checksum m"
  shows "\<exists>m \<in> set migrations. \<exists>f. catalogLookup migrationFiles (name m) = Some f
           \<and> file_checksum f \<noteq> checksum m
           \<and> checkChecksums (catalogLookup migrationFiles) migrations
               = Inl (ChecksumMismatch (name m))"
  using assms
proof (induction migrations)
  case Nil
  then show ?case by simp
next
  case (Cons m ms)
  from Cons.prems(1) have "name m \<in> set (map file_name migrationFiles)" by simp
  then obtain f where f: "catalogLookup migrationFiles (name m) = Some f"
    by (rule catalogLookup_present)
  show ?case
  proof (cases "file_checksum f = checksum m")
    case False
    with f show ?thesis by (auto simp: get_property_def)
  next
    case True
    with f Cons.prems(2) have later: "\<exists>m \<in> set ms. \<exists>f. catalogLookup migrationFiles (name m) = Some f
                                    \<and> file_checksum f \<noteq> checksum m"
      by auto
    from Cons.prems(1) have "\<forall>m \<in> set ms. name m \<in> set (map file_name migrationFiles)" by simp
    from Cons.IH [OF this later] f True show ?thesis
      by (auto simp: get_property_def)
  qed
qed

lemma integrity_error_when_files_present:
  assumes files: "getMigrationFiles env fs baseDir = Inr migrationFiles"
    and present: "\<forall>m \<in> set (ledger sql). name m \<in> set (map file_name migrationFiles)"
    and changed: "\<exists>m \<in> set (ledger sql). \<exists>f. catalogLookup migrationFiles (name m) = Some f
                                    \<and> file_checksum f \<noteq> checksum m"
  shows "\<exists>m \<in> set (ledger sql). \<exists>f. catalogLookup migrationFiles (name m) = Some f
           \<and> file_checksum f \<noteq> checksum m
           \<and> applyMigrations env fs sql_file now sql baseDir
               = (sql, JSBoolean False, [Error ''Failed'' (message (ChecksumMismatch (name m)))])"
proof -
  from present changed
  have "\<exists>m \<in> set (listApplied sql). \<exists>f. catalogLookup migrationFiles (name m) = Some f
           \<and> file_checksum f \<noteq> checksum m
           \<and> checkChecksums (catalogLookup migrationFiles) (listApplied sql)
               = Inl (ChecksumMismatch (name m))"
    by (intro checkChecksums_mismatch) (simp_all add: set_listApplied)
  then obtain m f where m: "m \<in> set (ledger sql)"
    and f: "catalogLookup migrationFiles (name m) = Some f" "file_checksum f \<noteq> checksum m"
    and c: "checkChecksums (catalogLookup migrationFiles) (listApplied sql)
               = Inl (ChecksumMismatch (name m))"
    by (auto simp: set_listApplied)
  from c files have "applyMigrations env fs sql_file now sql baseDir
               = (sql, JSBoolean False, [Error ''Failed'' (message (ChecksumMismatch (name m)))])"
    by (simp add: applyMigrations_cases applyTransaction_eq)
  with m f show ?thesis by blast
qed

subsection \<open>The loop over the pending migrations\<close>

lemma applyPending_appliedInOrder:
  "applyPending sql_file now r ms start = Inr final \<Longrightarrow>
     appliedInOrder sql_file now r ms start final"
proof (induction ms arbitrary: start)
  case Nil
  then have "final = start" by simp
  then show ?case
    unfolding appliedInOrder_def by (intro exI [of _ "[start]"]) simp
next
  case (Cons m ms)
  from Cons.prems obtain after next_state where
    script: "sql_file (file_path m) start = Inr after"
    and row: "insertMigration now (file_name m) (file_checksum m) r after = Inr next_state"
    and rest: "applyPending sql_file now r ms next_state = Inr final"
    by (auto simp: applyMigration_def split: sum.splits)
  from Cons.IH [OF rest] obtain states where
    len: "length states = Suc (length ms)" and first: "states ! 0 = next_state"
    and last: "states ! length ms = final"
    and steps: "\<forall>i < length ms. \<exists>after.
               sql_file (file_path (ms ! i)) (states ! i) = Inr after
               \<and> insertMigration now (file_name (ms ! i)) (file_checksum (ms ! i)) r after
                   = Inr (states ! Suc i)"
    unfolding appliedInOrder_def by blast
  have "\<exists>after. sql_file (file_path ((m # ms) ! i)) ((start # states) ! i) = Inr after
               \<and> insertMigration now (file_name ((m # ms) ! i)) (file_checksum ((m # ms) ! i)) r after
                   = Inr ((start # states) ! Suc i)"
    if "i < length (m # ms)" for i
  proof (cases i)
    case 0
    with script row first show ?thesis by auto
  next
    case (Suc j)
    with that have "j < length ms" by simp
    with steps Suc show ?thesis by simp
  qed
  then show ?case
    unfolding appliedInOrder_def
    using len last by (intro exI [of _ "start # states"]) simp
qed

lemma applyPending_stops:
  "applyPending sql_file now r ms start = Inl e \<Longrightarrow>
     \<exists>k < length ms. \<exists>reached.
        applyPending sql_file now r (take k ms) start = Inr reached
        \<and> applyMigration sql_file now reached (ms ! k) r = Inl e"
proof (induction ms arbitrary: start)
  case Nil
  then show ?case by simp
next
  case (Cons m ms)
  show ?case
  proof (cases "applyMigration sql_file now start m r")
    case (Inl e1)
    with Cons.prems have "e1 = e" by simp
    with Inl show ?thesis by (intro exI [of _ 0]) simp
  next
    case (Inr next_state)
    with Cons.prems have "applyPending sql_file now r ms next_state = Inl e" by simp
    from Cons.IH [OF this] obtain k reached where
      k: "k < length ms"
      and pre: "applyPending sql_file now r (take k ms) next_state = Inr reached"
      and stop: "applyMigration sql_file now reached (ms ! k) r = Inl e"
      by blast
    with Inr show ?thesis by (intro exI [of _ "Suc k"]) simp
  qed
qed

lemma pendingOf_listed:
  assumes files: "getMigrationFiles env fs baseDir = Inr migrationFiles"
    and listing: "fs_readdir env fs baseDir = Inr listing"
  shows "pendingOf (listApplied sql) migrationFiles = listedPending env fs baseDir sql listing"
proof -
  from files obtain l where l: "fs_readdir env fs baseDir = Inr l"
    and m: "migrationFiles = map (catalogEntry env fs baseDir) (filter (\<lambda>f. endsWith f ''.sql'') l)"
    by (rule getMigrationFiles_Inr)
  from l listing have same: "l = listing" by simp
  have name_of: "file_name (catalogEntry env fs baseDir f) = f" for f
    by (simp add: catalogEntry_def)
  have "pendingOf (listApplied sql) migrationFiles
          = filter (\<lambda>m. file_name m \<notin> set (map name (ledger sql))) migrationFiles"
    by (simp add: pendingOf_catalog [OF files] set_listApplied)
  also have "\<dots> = map (catalogEntry env fs baseDir)
                  (filter (\<lambda>f. f \<notin> set (map name (ledger sql)))
                     (filter (\<lambda>f. endsWith f ''.sql'') listing))"
    by (simp add: m same filter_map comp_def name_of)
  also have "\<dots> = listedPending env fs baseDir sql listing"
    by (simp add: listedPending_def conj_commute)
  finally show ?thesis .
qed

lemma listedPending_names:
  "map file_name (listedPending env fs baseDir sql listing)
     = filter (\<lambda>f. endsWith f ''.sql'' \<and> f \<notin> set (map name (ledger sql))) listing"
  by (simp add: listedPending_def catalogEntry_def comp_def)

subsection \<open>File names\<close>

lemma whitespace_kept: "kept c \<Longrightarrow> whitespace c \<longleftrightarrow> c = 0x20"
  unfolding kept_def whitespace_def by (auto simp: word_le_nat_alt)

lemma sanitize_spaces:
  "sanitize lower nm = map (\<lambda>c. if c = 0x20 then 0x5F else c) (filter kept (lower nm))"
  unfolding sanitize_def
  by (rule map_cong [OF refl]) (simp add: whitespace_kept)

lemma sanitize_units:
  assumes "c \<in> set (sanitize lower nm)"
  shows "c = 0x5F \<or> (0x61 \<le> c \<and> c \<le> 0x7A) \<or> (0x30 \<le> c \<and> c \<le> 0x39)"
  using assms unfolding sanitize_spaces by (auto simp: kept_def)

lemma sanitize_nothing_left:
  assumes "\<forall>c \<in> set (lower nm). \<not> kept c"
  shows "sanitize lower nm = []"
proof -
  have "filter kept (lower nm) = []"
    unfolding filter_empty_conv using assms by simp
  then show ?thesis by (simp add: sanitize_def)
qed

lemma is_digit_code: "is_digit c \<longleftrightarrow> 48 \<le> (of_char c :: nat) \<and> (of_char c :: nat) \<le> 57"
  by (simp add: is_digit_def less_eq_char_def del: less_eq_char_simp)

lemma timestamp_digits:
  assumes "14 \<le> length (filter is_digit isoString)"
  shows "length (timestamp_of isoString) = 14"
    and "\<forall>c \<in> set (timestamp_of isoString). is_digit c"
proof -
  show "length (timestamp_of isoString) = 14"
    using assms by (simp add: timestamp_of_def)
  show "\<forall>c \<in> set (timestamp_of isoString). is_digit c"
  proof
    fix c assume "c \<in> set (timestamp_of isoString)"
    then have "c \<in> set (filter is_digit isoString)"
      unfolding timestamp_of_def by (rule in_set_takeD)
    then show "is_digit c" by simp
  qed
qed

lemma latin1_utf16: "latin1 (utf16 s) = s"
proof -
  have "char_of (unat (of_nat (of_char c :: nat) :: 16 word)) = c" for c :: char
  proof -
    have "(of_char c :: nat) < 2 ^ 16"
      by (rule less_trans [OF nat_of_char_less_256]) simp
    then have "unat (of_nat (of_char c :: nat) :: 16 word) = of_char c"
      by (simp add: unat_of_nat)
    then show ?thesis by simp
  qed
  then show ?thesis by (simp add: latin1_def utf16_def comp_def)
qed

text \<open>The time stamp of an ISO string of the usual shape: the digits down to the seconds.\<close>

lemma timestamp_of_iso_shape:
  assumes shape: "isoString = y @ ''-'' @ mo @ ''-'' @ d @ ''T'' @ h @ '':'' @ mi @ '':'' @ s
                     @ ''.'' @ ms @ ''Z''"
    and digits: "\<forall>c \<in> set (y @ mo @ d @ h @ mi @ s @ ms). is_digit c"
    and lengths: "length y = 4" "length mo = 2" "length d = 2" "length h = 2" "length mi = 2"
      "length s = 2"
  shows "timestamp_of isoString = y @ mo @ d @ h @ mi @ s"
proof -
  have keep: "filter is_digit xs = xs" if "\<forall>c \<in> set xs. is_digit c" for xs
    using that by (simp add: filter_id_conv)
  have marks: "\<not> is_digit CHR ''-''" "\<not> is_digit CHR ''T''" "\<not> is_digit CHR '':''"
    "\<not> is_digit CHR ''.''" "\<not> is_digit CHR ''Z''"
    by (simp_all add: is_digit_def)
  from digits have "filter is_digit isoString = y @ mo @ d @ h @ mi @ s @ ms"
    by (simp add: shape marks keep)
  with lengths show ?thesis by (simp add: timestamp_of_def)
qed

text \<open>
  Every code unit of the file name is below 256 (in fact a digit, a letter \<^verbatim>\<open>a-z\<close>,
  an underscore or a full stop), so reading the name as a text loses nothing.
\<close>

lemma utf16_latin1:
  assumes "\<forall>c \<in> set s. c < 0x100"
  shows "utf16 (latin1 s) = s"
proof -
  have "of_nat (of_char (char_of (unat c) :: char) :: nat) = c" if "c < 0x100" for c :: "16 word"
  proof -
    from that have "unat c < 256" by (simp add: word_less_nat_alt)
    then have "(of_char (char_of (unat c) :: char) :: nat) = unat c" by simp
    then show ?thesis by simp
  qed
  with assms show ?thesis
    by (simp add: utf16_def latin1_def comp_def map_idI)
qed

lemma utf16_units: "c \<in> set (utf16 s) \<Longrightarrow> c < 0x100"
proof -
  assume "c \<in> set (utf16 s)"
  then obtain ch :: char where c: "c = of_nat (of_char ch)" by (auto simp: utf16_def)
  have "(of_char ch :: nat) mod 65536 \<le> of_char ch" by (rule mod_less_eq_dividend)
  also have "(of_char ch :: nat) < 256" by simp
  finally have "unat (of_nat (of_char ch :: nat) :: 16 word) < 256"
    by (simp add: unat_of_nat)
  with c show ?thesis by (simp add: word_less_nat_alt)
qed

lemma fileName_text_exact:
  "utf16 (latin1 (fileName_of lower isoString nm)) = fileName_of lower isoString nm"
proof (rule utf16_latin1, rule ballI)
  fix c assume "c \<in> set (fileName_of lower isoString nm)"
  then consider "c \<in> set (utf16 (timestamp_of isoString))" | "c \<in> set (utf16 ''_'')"
    | "c \<in> set (sanitize lower nm)" | "c \<in> set (utf16 ''.sql'')"
    by (auto simp: fileName_of_def)
  then show "c < 0x100"
  proof cases
    case 3
    from sanitize_units [OF this] show ?thesis
      by (auto simp: word_le_nat_alt word_less_nat_alt)
  qed (rule utf16_units, assumption)+
qed

subsection \<open>The example scripts\<close>

lemma leaves_ledger_demo: "leaves_ledger demo_scripts"
  by (auto simp: leaves_ledger_def demo_scripts_def split: if_splits)

lemma demo_lower_fixes: "(\<forall>c \<in> set t. \<not> demo_letter c) \<Longrightarrow> demo_lower t = t"
  by (induction t) (auto simp: demo_lower_def demo_lower_unit_def demo_letter_def)

section \<open>The claims\<close>

subsection \<open>C1: a changed file behind a deleted one\<close>

text \<open>
  Claim C1. A ledger row whose name is in the catalog and whose checksum differs from
  the file's makes the apply call fail with the integrity error that names the
  migration, apply nothing and leave the database as it was. The code evaluated where
  this breaks: \<^verbatim>\<open>init\<close> and \<^verbatim>\<open>add_users\<close> are recorded, the file of \<^verbatim>\<open>init\<close>
  was deleted and the content of \<^verbatim>\<open>add_users\<close> was changed. The check of the row
  of \<^verbatim>\<open>add_users\<close> alone raises the integrity error; the call reads the rows in
  the order (round, name), reaches the row of \<^verbatim>\<open>init\<close> first and fails on
  \<^verbatim>\<open>migrationFile.checksum\<close> with a type error that names no migration. The
  database is unchanged and nothing is applied.
\<close>

theorem mismatch_behind_deleted_file:
  "checkChecksums
      (catalogLookup [demo_entry (''20230102000000_add_users.sql'', ''create users v2''),
                      demo_entry add_index_sql])
      [\<lparr>name = ''20230102000000_add_users.sql'', checksum = ''sha256:create users'',
         round = 1, applied_at = 7\<rparr>]
     = Inl (ChecksumMismatch ''20230102000000_add_users.sql'')
   \<and> applyMigrations disk_env
        (migrations_dir [(''20230102000000_add_users.sql'', ''create users v2''), add_index_sql])
        demo_scripts 8 applied_db ''migrations''
     = (applied_db, JSBoolean False,
        [Error ''Failed''
           (''Cannot read properties of undefined (reading '' @ [CHR 0x27] @ ''checksum''
              @ [CHR 0x27] @ '')'')])"
  by code_simp

subsection \<open>C2: a failing script rolls the whole batch back\<close>

text \<open>
  Claim C2. If a pending script fails during an apply call, the whole batch is rolled
  back: the call leaves the database, and so the ledger, exactly as it was, also when
  scripts earlier in the same batch ran and were recorded inside the transaction.
  Here the catalog was read, the integrity check passed, the pending migrations are
  \<open>earlier @ migration # later\<close>, the loop ran \<open>earlier\<close> (scripts and inserts)
  reaching \<open>txn\<close>, and the script of \<open>migration\<close> fails there.
\<close>

theorem script_failure_rolls_back_batch:
  assumes files: "getMigrationFiles env fs baseDir = Inr migrationFiles"
    and check: "checkChecksums (catalogLookup migrationFiles) (listApplied sql) = Inr ()"
    and batch: "pendingOf (listApplied sql) migrationFiles = earlier @ migration # later"
    and earlier: "applyPending sql_file now (roundOf (listApplied sql)) earlier (ensured sql) = Inr txn"
    and fails: "sql_file (file_path migration) txn = Inl e"
  shows "applyMigrations env fs sql_file now sql baseDir =
           (sql, JSBoolean False, [Error ''Failed'' (message e)])"
proof -
  have "applyPending sql_file now (roundOf (listApplied sql)) (migration # later) txn = Inl e"
    using fails by (simp add: applyMigration_def)
  then have "applyPending sql_file now (roundOf (listApplied sql))
               (pendingOf (listApplied sql) migrationFiles) (ensured sql) = Inl e"
    using earlier by (simp add: batch applyPending_append)
  then have "applyTransaction sql_file now migrationFiles sql = Inl e"
    using check by (simp add: applyTransaction_eq)
  then show ?thesis
    using files by (simp add: applyMigrations_cases)
qed

text \<open>
  Two scripts run, the third is invalid SQL: nothing is recorded, no table is left.
\<close>

theorem script_failure_rolls_back_batch_witness:
  "applyPending demo_scripts 7 1 [demo_entry init_sql, demo_entry add_users_sql] (ensured fresh_db)
     = Inr applied_db
   \<and> demo_scripts (file_path (demo_entry broken_sql)) applied_db = Inl (DatabaseError ''syntax error'')
   \<and> applyMigrations disk_env (migrations_dir [init_sql, add_users_sql, broken_sql]) demo_scripts 7
        fresh_db ''migrations''
     = (fresh_db, JSBoolean False, [Error ''Failed'' ''syntax error''])"
proof -
  let ?files = "[demo_entry init_sql, demo_entry add_users_sql, demo_entry broken_sql]"
  have h1: "getMigrationFiles disk_env (migrations_dir [init_sql, add_users_sql, broken_sql])
              ''migrations'' = Inr ?files"
    by code_simp
  have h2: "checkChecksums (catalogLookup ?files) (listApplied fresh_db) = Inr ()"
    by code_simp
  have h3: "pendingOf (listApplied fresh_db) ?files
              = [demo_entry init_sql, demo_entry add_users_sql] @ demo_entry broken_sql # []"
    by code_simp
  have r: "roundOf (listApplied fresh_db) = 1"
    by code_simp
  have h4: "applyPending demo_scripts 7 (roundOf (listApplied fresh_db))
              [demo_entry init_sql, demo_entry add_users_sql] (ensured fresh_db) = Inr applied_db"
    by code_simp
  have h5: "demo_scripts (file_path (demo_entry broken_sql)) applied_db
              = Inl (DatabaseError ''syntax error'')"
    by code_simp
  from script_failure_rolls_back_batch [OF h1 h2 h3 h4 h5] h4 h5 r show ?thesis
    by simp
qed

subsection \<open>C3: the rows of one call share the next round\<close>

text \<open>
  Claim C3. An apply call that succeeds appends its \<open>n\<close> new rows to the ledger (the
  console line reports \<open>n\<close>), and every new row carries the same round: the largest
  round of the ledger before the call plus 1, or 1 when the ledger was empty. The
  scripts are assumed not to write the ledger themselves.
\<close>

theorem new_rows_share_next_round:
  assumes scripts: "leaves_ledger sql_file"
    and ok: "applyMigrations env fs sql_file now sql baseDir = (sql1, JSBoolean True, out)"
  shows "\<exists>new. ledger sql1 = ledger sql @ new
           \<and> out = [Log ''Applied'' (string_of_nat (length new) @ '' migrations'')]
           \<and> (\<forall>m \<in> set new. round m =
                 (if ledger sql = [] then 1 else Max (round ` set (ledger sql)) + 1))"
proof -
  from ok obtain migrationFiles where
    run: "applyPending sql_file now (roundOf (listApplied sql))
            (pendingOf (listApplied sql) migrationFiles) (ensured sql) = Inr sql1"
    and out: "out = [Log ''Applied''
             (string_of_nat (length (pendingOf (listApplied sql) migrationFiles)) @ '' migrations'')]"
    by (rule applyMigrations_success)
  let ?new = "map (recorded now (roundOf (listApplied sql))) (pendingOf (listApplied sql) migrationFiles)"
  have "ledger sql1 = ledger sql @ ?new"
    using applyPending_ledger [OF scripts run] by (simp add: ledger_ensured)
  moreover have "out = [Log ''Applied'' (string_of_nat (length ?new) @ '' migrations'')]"
    using out by simp
  moreover have "\<forall>m \<in> set ?new. round m =
                 (if ledger sql = [] then 1 else Max (round ` set (ledger sql)) + 1)"
    by (auto simp: recorded_def roundOf_listApplied)
  ultimately show ?thesis by blast
qed

text \<open>A third file joins two migrations applied in round 1: its row has round 2.\<close>

theorem new_rows_share_next_round_witness:
  "\<exists>new. ledger (fst (applyMigrations disk_env (migrations_dir [init_sql, add_users_sql, add_index_sql])
                         demo_scripts 8 applied_db ''migrations''))
            = ledger applied_db @ new
         \<and> length new = 1 \<and> list_all (\<lambda>m. round m = 2) new"
proof -
  let ?sql1 = "applied_db\<lparr>migrations_table :=
                 Some (ledger applied_db @ [recorded 8 2 (demo_entry add_index_sql)])\<rparr>"
  have run: "applyMigrations disk_env (migrations_dir [init_sql, add_users_sql, add_index_sql])
               demo_scripts 8 applied_db ''migrations''
             = (?sql1, JSBoolean True, [Log ''Applied'' ''1 migrations''])"
    by code_simp
  have mx: "(if ledger applied_db = [] then 1 else Max (round ` set (ledger applied_db)) + 1) = 2"
    by (simp add: ledger_def applied_db_def)
  from new_rows_share_next_round [OF leaves_ledger_demo run] obtain new where
    "ledger ?sql1 = ledger applied_db @ new"
    "[Log ''Applied'' ''1 migrations''] = [Log ''Applied'' (string_of_nat (length new) @ '' migrations'')]"
    "\<forall>m \<in> set new. round m = (if ledger applied_db = [] then 1 else Max (round ` set (ledger applied_db)) + 1)"
    by blast
  then have "ledger ?sql1 = ledger applied_db @ new \<and> length new = 1 \<and> list_all (\<lambda>m. round m = 2) new"
    unfolding mx by (auto simp: ledger_def list_all_iff)
  then show ?thesis unfolding run by auto
qed

subsection \<open>C4: the order in which pending migrations run\<close>

text \<open>
  Claim C4 says that pending migrations run in the lexical order of their file names
  whatever order the directory listing has. The code never sorts the listing. With
  \<^verbatim>\<open>add_index\<close> listed before \<^verbatim>\<open>add_users\<close> the index script runs first and
  fails, since its table does not exist yet; with the same two files listed in
  lexical order the call succeeds.
\<close>

theorem listing_order_decides_apply:
  "applyMigrations disk_env (migrations_dir [add_index_sql, add_users_sql]) demo_scripts 7
      fresh_db ''migrations''
     = (fresh_db, JSBoolean False, [Error ''Failed'' ''relation users does not exist''])
   \<and> applyMigrations disk_env (migrations_dir [add_users_sql, add_index_sql]) demo_scripts 7
      fresh_db ''migrations''
     = (fresh_db\<lparr>migrations_table :=
                   Some [recorded 7 1 (demo_entry add_users_sql),
                         recorded 7 1 (demo_entry add_index_sql)],
                 tables := [(''public'', ''users'')]\<rparr>,
        JSBoolean True, [Log ''Applied'' ''2 migrations''])"
  by code_simp

text \<open>
  Claim C4, amended. Pending migrations are executed in the order of the directory
  listing. When the call succeeds, the scripts of the listed \<^verbatim>\<open>.sql\<close> names that
  were not in the ledger ran one after the other in listing order, each on the
  database its predecessors left, each followed by the insertion of its row. When the
  call fails after the integrity check, the scripts of the first \<open>k\<close> of them ran
  that way and the next one raised the error that is reported. The order is the
  lexical order of the names whenever the listing is in lexical order.
\<close>

theorem pending_run_in_listing_order:
  assumes listing: "fs_readdir env fs baseDir = Inr listing"
    and call: "applyMigrations env fs sql_file now sql baseDir = (sql1, result, out)"
  shows "(result = JSBoolean True \<longrightarrow>
            appliedInOrder sql_file now (roundOf (listApplied sql))
              (listedPending env fs baseDir sql listing) (ensured sql) sql1)
       \<and> (result = JSBoolean False
            \<and> (\<exists>migrationFiles. getMigrationFiles env fs baseDir = Inr migrationFiles
                  \<and> checkChecksums (catalogLookup migrationFiles) (listApplied sql) = Inr ())
          \<longrightarrow> (\<exists>k < length (listedPending env fs baseDir sql listing). \<exists>reached e.
                  appliedInOrder sql_file now (roundOf (listApplied sql))
                    (take k (listedPending env fs baseDir sql listing)) (ensured sql) reached
                  \<and> applyMigration sql_file now reached
                      (listedPending env fs baseDir sql listing ! k) (roundOf (listApplied sql))
                      = Inl e
                  \<and> out = [Error ''Failed'' (message e)]))
       \<and> (sorted listing \<longrightarrow> sorted (map file_name (listedPending env fs baseDir sql listing)))"
proof -
  let ?r = "roundOf (listApplied sql)"
  let ?ps = "listedPending env fs baseDir sql listing"
  have success: "appliedInOrder sql_file now ?r ?ps (ensured sql) sql1" if "result = JSBoolean True"
  proof -
    from call that obtain migrationFiles where
      files: "getMigrationFiles env fs baseDir = Inr migrationFiles"
      and run: "applyPending sql_file now ?r (pendingOf (listApplied sql) migrationFiles)
                  (ensured sql) = Inr sql1"
      by (auto elim: applyMigrations_success)
    from run have "applyPending sql_file now ?r ?ps (ensured sql) = Inr sql1"
      by (simp only: pendingOf_listed [OF files listing])
    then show ?thesis by (rule applyPending_appliedInOrder)
  qed
  have failure: "\<exists>k < length ?ps. \<exists>reached e.
                  appliedInOrder sql_file now ?r (take k ?ps) (ensured sql) reached
                  \<and> applyMigration sql_file now reached (?ps ! k) ?r = Inl e
                  \<and> out = [Error ''Failed'' (message e)]"
    if "result = JSBoolean False"
      and files: "getMigrationFiles env fs baseDir = Inr migrationFiles"
      and check: "checkChecksums (catalogLookup migrationFiles) (listApplied sql) = Inr ()"
    for migrationFiles
  proof -
    from call that obtain e where
      stop: "applyPending sql_file now ?r (pendingOf (listApplied sql) migrationFiles)
               (ensured sql) = Inl e"
      and out: "out = [Error ''Failed'' (message e)]"
      by (auto simp: applyMigrations_cases applyTransaction_eq split: sum.splits)
    from stop have "applyPending sql_file now ?r ?ps (ensured sql) = Inl e"
      by (simp only: pendingOf_listed [OF files listing])
    from applyPending_stops [OF this] obtain k reached where
      "k < length ?ps"
      "applyPending sql_file now ?r (take k ?ps) (ensured sql) = Inr reached"
      "applyMigration sql_file now reached (?ps ! k) ?r = Inl e"
      by blast
    with out applyPending_appliedInOrder show ?thesis by blast
  qed
  have lexical: "sorted (map file_name ?ps)" if "sorted listing"
    unfolding listedPending_names using that by (rule sorted_wrt_filter)
  from success failure lexical show ?thesis by blast
qed

text \<open>
  A listing in lexical order with a file that is no migration: both scripts run, in
  that order. The listing of the counterexample: no script ran before the one that
  failed.
\<close>

theorem pending_run_in_listing_order_witness:
  "sorted [''20230102000000_add_users.sql'', ''20230103000000_add_index.sql'', ''notes.txt'']
   \<and> appliedInOrder demo_scripts 7 1 [demo_entry add_users_sql, demo_entry add_index_sql]
       (ensured fresh_db)
       (fresh_db\<lparr>migrations_table :=
                    Some [recorded 7 1 (demo_entry add_users_sql),
                          recorded 7 1 (demo_entry add_index_sql)],
                  tables := [(''public'', ''users'')]\<rparr>)
   \<and> sorted (map file_name [demo_entry add_users_sql, demo_entry add_index_sql])
   \<and> (\<exists>k < 2. \<exists>reached e.
         appliedInOrder demo_scripts 7 1
           (take k [demo_entry add_index_sql, demo_entry add_users_sql]) (ensured fresh_db) reached
         \<and> applyMigration demo_scripts 7 reached
             ([demo_entry add_index_sql, demo_entry add_users_sql] ! k) 1 = Inl e
         \<and> [Error ''Failed'' ''relation users does not exist''] = [Error ''Failed'' (message e)])"
proof -
  let ?fs = "migrations_dir [add_users_sql, add_index_sql, (''notes.txt'', [])]"
  let ?listing = "[''20230102000000_add_users.sql'', ''20230103000000_add_index.sql'', ''notes.txt'']"
  let ?sql1 = "fresh_db\<lparr>migrations_table :=
                 Some [recorded 7 1 (demo_entry add_users_sql), recorded 7 1 (demo_entry add_index_sql)],
               tables := [(''public'', ''users'')]\<rparr>"
  have listing: "fs_readdir disk_env ?fs ''migrations'' = Inr ?listing"
    by code_simp
  have run: "applyMigrations disk_env ?fs demo_scripts 7 fresh_db ''migrations''
             = (?sql1, JSBoolean True, [Log ''Applied'' ''2 migrations''])"
    by code_simp
  have pending: "listedPending disk_env ?fs ''migrations'' fresh_db ?listing
                   = [demo_entry add_users_sql, demo_entry add_index_sql]"
    by code_simp
  have first_round: "roundOf (listApplied fresh_db) = 1"
    by code_simp
  have srt: "sorted ?listing"
    by code_simp
  note good = pending_run_in_listing_order [OF listing run]
  let ?fs2 = "migrations_dir [add_index_sql, add_users_sql]"
  let ?listing2 = "[''20230103000000_add_index.sql'', ''20230102000000_add_users.sql'']"
  let ?files2 = "[demo_entry add_index_sql, demo_entry add_users_sql]"
  have listing2: "fs_readdir disk_env ?fs2 ''migrations'' = Inr ?listing2"
    by code_simp
  have run2: "applyMigrations disk_env ?fs2 demo_scripts 7 fresh_db ''migrations''
             = (fresh_db, JSBoolean False, [Error ''Failed'' ''relation users does not exist''])"
    by code_simp
  have files2: "getMigrationFiles disk_env ?fs2 ''migrations'' = Inr ?files2"
    by code_simp
  have check2: "checkChecksums (catalogLookup ?files2) (listApplied fresh_db) = Inr ()"
    by code_simp
  have pending2: "listedPending disk_env ?fs2 ''migrations'' fresh_db ?listing2 = ?files2"
    by code_simp
  note bad = pending_run_in_listing_order [OF listing2 run2]
  from good srt have a: "appliedInOrder demo_scripts 7 1
                           [demo_entry add_users_sql, demo_entry add_index_sql] (ensured fresh_db) ?sql1"
    and b: "sorted (map file_name [demo_entry add_users_sql, demo_entry add_index_sql])"
    unfolding pending first_round by blast+
  have two: "length ?files2 = 2" by simp
  from bad files2 check2 have c: "\<exists>k < 2. \<exists>reached e.
         appliedInOrder demo_scripts 7 1 (take k ?files2) (ensured fresh_db) reached
         \<and> applyMigration demo_scripts 7 reached (?files2 ! k) 1 = Inl e
         \<and> [Error ''Failed'' ''relation users does not exist''] = [Error ''Failed'' (message e)]"
    unfolding pending2 first_round two by blast
  from a b c srt show ?thesis by blast
qed

subsection \<open>C5: what an apply call resolves to\<close>

text \<open>
  Claim C5 says that a successful apply call returns the count of migrations applied.
  The exported function resolves to a boolean (the command line uses it for the exit
  status); the count is on the console only. With \<^verbatim>\<open>init\<close> and \<^verbatim>\<open>add_users\<close>
  pending the call resolves to true, not 2; with an empty catalog to true, not 0.
\<close>

theorem apply_does_not_return_count:
  "applyMigrations disk_env (migrations_dir [init_sql, add_users_sql]) demo_scripts 7
      fresh_db ''migrations''
     = (applied_db, JSBoolean True, [Log ''Applied'' ''2 migrations''])
   \<and> fst (snd (applyMigrations disk_env (migrations_dir [init_sql, add_users_sql]) demo_scripts 7
                  fresh_db ''migrations'')) \<noteq> JSNumber 2
   \<and> fst (snd (applyMigrations disk_env (migrations_dir []) demo_scripts 7
                  fresh_db ''migrations'')) \<noteq> JSNumber 0"
  by code_simp

text \<open>
  Claim C5, amended. An apply call that succeeds resolves to true and writes the line
  \<^verbatim>\<open>Applied n migrations\<close>, where \<open>n\<close> is the number of migrations the call
  applied: the pending migrations of the catalog, whose scripts ran one after the
  other, each followed by the insertion of its row (so the ledger grew by \<open>n\<close> rows
  when the scripts do not write it themselves). A call that fails resolves to false,
  leaves the database as it was and writes \<^verbatim>\<open>Failed\<close> with the message of the
  error that the catalog read or the transaction raised.
\<close>

theorem apply_resolves_to_boolean:
  assumes "applyMigrations env fs sql_file now sql baseDir = (sql1, result, out)"
  shows "(result = JSBoolean True
          \<and> (\<exists>migrationFiles applied.
                getMigrationFiles env fs baseDir = Inr migrationFiles
                \<and> applied = pendingOf (listApplied sql) migrationFiles
                \<and> appliedInOrder sql_file now (roundOf (listApplied sql)) applied (ensured sql) sql1
                \<and> (leaves_ledger sql_file \<longrightarrow>
                      ledger sql1
                        = ledger sql @ map (recorded now (roundOf (listApplied sql))) applied)
                \<and> out = [Log ''Applied'' (string_of_nat (length applied) @ '' migrations'')]))
       \<or> (result = JSBoolean False \<and> sql1 = sql
           \<and> (\<exists>e. (getMigrationFiles env fs baseDir = Inl e
                     \<or> (\<exists>migrationFiles. getMigrationFiles env fs baseDir = Inr migrationFiles
                           \<and> applyTransaction sql_file now migrationFiles sql = Inl e))
                   \<and> out = [Error ''Failed'' (message e)]))"
proof (cases "getMigrationFiles env fs baseDir")
  case (Inl e)
  with assms show ?thesis by (auto simp: applyMigrations_cases)
next
  case files: (Inr migrationFiles)
  show ?thesis
  proof (cases "applyTransaction sql_file now migrationFiles sql")
    case (Inl e)
    with assms files show ?thesis by (auto simp: applyMigrations_cases)
  next
    case (Inr committed)
    with assms files have res: "result = JSBoolean True"
      by (auto simp: applyMigrations_cases split: prod.splits)
    with assms obtain ms where
      ms: "getMigrationFiles env fs baseDir = Inr ms"
      and run: "applyPending sql_file now (roundOf (listApplied sql))
                  (pendingOf (listApplied sql) ms) (ensured sql) = Inr sql1"
      and out: "out = [Log ''Applied''
             (string_of_nat (length (pendingOf (listApplied sql) ms)) @ '' migrations'')]"
      by (auto elim: applyMigrations_success)
    from ms files have same: "ms = migrationFiles" by simp
    have rows: "ledger sql1 = ledger sql
                  @ map (recorded now (roundOf (listApplied sql))) (pendingOf (listApplied sql) ms)"
      if "leaves_ledger sql_file"
      using applyPending_ledger [OF that run] by (simp add: ledger_ensured)
    from applyPending_appliedInOrder [OF run] rows out res files same show ?thesis
      by blast
  qed
qed

text \<open>Two migrations applied to an empty database; a catalog whose only script is invalid.\<close>

theorem apply_resolves_to_boolean_witness:
  "appliedInOrder demo_scripts 7 1 [demo_entry init_sql, demo_entry add_users_sql]
      (ensured fresh_db) applied_db
   \<and> ledger applied_db
       = ledger fresh_db @ map (recorded 7 1) [demo_entry init_sql, demo_entry add_users_sql]
   \<and> string_of_nat (length [demo_entry init_sql, demo_entry add_users_sql]) @ '' migrations''
       = ''2 migrations''
   \<and> (\<exists>e. applyTransaction demo_scripts 7 [demo_entry broken_sql] fresh_db = Inl e
           \<and> [Error ''Failed'' ''syntax error''] = [Error ''Failed'' (message e)])"
proof -
  let ?files = "[demo_entry init_sql, demo_entry add_users_sql]"
  have run: "applyMigrations disk_env (migrations_dir [init_sql, add_users_sql]) demo_scripts 7
               fresh_db ''migrations''
             = (applied_db, JSBoolean True, [Log ''Applied'' ''2 migrations''])"
    by code_simp
  have files: "getMigrationFiles disk_env (migrations_dir [init_sql, add_users_sql]) ''migrations''
                 = Inr ?files"
    by code_simp
  have pending: "pendingOf (listApplied fresh_db) ?files = ?files"
    by code_simp
  have first_round: "roundOf (listApplied fresh_db) = 1"
    by code_simp
  have line: "string_of_nat (length ?files) @ '' migrations'' = ''2 migrations''"
    by code_simp
  from apply_resolves_to_boolean [OF run] files
  have "appliedInOrder demo_scripts 7 (roundOf (listApplied fresh_db))
          (pendingOf (listApplied fresh_db) ?files) (ensured fresh_db) applied_db
        \<and> (leaves_ledger demo_scripts \<longrightarrow>
              ledger applied_db
                = ledger fresh_db @ map (recorded 7 (roundOf (listApplied fresh_db)))
                                     (pendingOf (listApplied fresh_db) ?files))"
    by auto
  with leaves_ledger_demo have good:
    "appliedInOrder demo_scripts 7 1 ?files (ensured fresh_db) applied_db
     \<and> ledger applied_db = ledger fresh_db @ map (recorded 7 1) ?files"
    unfolding pending first_round by blast
  have run2: "applyMigrations disk_env (migrations_dir [broken_sql]) demo_scripts 7
               fresh_db ''migrations''
             = (fresh_db, JSBoolean False, [Error ''Failed'' ''syntax error''])"
    by code_simp
  have files2: "getMigrationFiles disk_env (migrations_dir [broken_sql]) ''migrations''
                 = Inr [demo_entry broken_sql]"
    by code_simp
  from apply_resolves_to_boolean [OF run2] files2
  have bad: "\<exists>e. applyTransaction demo_scripts 7 [demo_entry broken_sql] fresh_db = Inl e
           \<and> [Error ''Failed'' ''syntax error''] = [Error ''Failed'' (message e)]"
    by auto
  from good line bad show ?thesis by blast
qed

subsection \<open>C6: a ledger row whose file was deleted\<close>

text \<open>
  Claim C6. A ledger whose rows either match their file or name a file that is no
  longer in the catalog lets the apply call succeed, the rows of deleted files being
  skipped. The code evaluated where this breaks: \<^verbatim>\<open>init\<close> and \<^verbatim>\<open>add_users\<close> are
  recorded, the file of \<^verbatim>\<open>init\<close> was deleted, \<^verbatim>\<open>add_users\<close> is unchanged (its
  row alone passes the check) and \<^verbatim>\<open>add_index\<close> is pending. The lookup of the
  deleted name is \<^verbatim>\<open>undefined\<close>, reading its \<^verbatim>\<open>checksum\<close> throws, and the call
  fails: the pending migration is not applied.
\<close>

theorem deleted_file_fails_apply:
  "checkChecksums (catalogLookup [demo_entry add_users_sql, demo_entry add_index_sql])
      [\<lparr>name = ''20230102000000_add_users.sql'', checksum = ''sha256:create users'',
         round = 1, applied_at = 7\<rparr>]
     = Inr ()
   \<and> get_property (catalogLookup [demo_entry add_users_sql, demo_entry add_index_sql])
        ''20230101000000_init.sql'' = Undefined
   \<and> applyMigrations disk_env (migrations_dir [add_users_sql, add_index_sql])
        demo_scripts 8 applied_db ''migrations''
     = (applied_db, JSBoolean False,
        [Error ''Failed''
           (''Cannot read properties of undefined (reading '' @ [CHR 0x27] @ ''checksum''
              @ [CHR 0x27] @ '')'')])"
  by code_simp

subsection \<open>C7: a reset drops the tables and replays the catalog\<close>

text \<open>
  Claim C7. A forced or confirmed reset drops every table of the schemas of the
  search path and replays the catalog in one fresh round. The code evaluated where
  this breaks: the search path is \<^verbatim>\<open>"App", public\<close>. The code splits it at the
  comma and only replaces the piece \<^verbatim>\<open>"$user"\<close>, so the schema list holds the
  piece \<^verbatim>\<open>"App"\<close> with its quotes, which equals no \<^verbatim>\<open>schemaname\<close>. The tables
  of \<^verbatim>\<open>public\<close> are dropped, the table and the ledger in \<^verbatim>\<open>App\<close> are kept; the
  apply call that follows finds both migrations recorded, runs no script and reports
  0 migrations. The reset resolves to true, the ledger still has rounds 1 and 2, and
  the dropped tables are not created again.
\<close>

theorem reset_keeps_quoted_schema:
  "resolveSchemas (search_path quoted_db) (current_user quoted_db)
     = [[CHR 0x22] @ ''App'' @ [CHR 0x22], ''public'']
   \<and> pg_tables quoted_db
     = [(''App'', ''__migrations''), (''App'', ''accounts''),
        (''public'', ''settings''), (''public'', ''users'')]
   \<and> pg_tables (afterDrop quoted_db) = [(''App'', ''__migrations''), (''App'', ''accounts'')]
   \<and> resetDatabase disk_env (migrations_dir [init_sql, add_users_sql]) demo_scripts 9 False
        quoted_db ''migrations'' True
     = (quoted_db\<lparr>tables := [(''App'', ''accounts'')]\<rparr>, JSBoolean True,
        [Log ''Reset'' ''Tables dropped'', Log ''Applied'' ''0 migrations''])
   \<and> map round (ledger (quoted_db\<lparr>tables := [(''App'', ''accounts'')]\<rparr>)) = [1, 2]"
  by code_simp

subsection \<open>C8: a declined reset\<close>

text \<open>
  Claim C8. Without the force flag and with the confirmation declined, the reset
  writes the line \<^verbatim>\<open>Aborted\<close> with \<^verbatim>\<open>console.log\<close> (not an error line), resolves
  to false and returns the database it was given: whatever the file system, the
  scripts and the database are, no table is dropped and no apply call is made.
\<close>

theorem declined_reset_touches_nothing:
  "resetDatabase env fs sql_file now False sql baseDir False
     = (sql, JSBoolean False, [Log ''Aborted'' []])"
  by (simp add: resetDatabase_def)

subsection \<open>C9: reading the catalog\<close>

text \<open>
  Claim C9 says that the catalog read resolves the directory to an absolute path
  before listing it. \<open>getMigrationFiles\<close> never calls \<^verbatim>\<open>path.resolve\<close> (only
  \<open>generateMigration\<close> does): it lists the directory as given and joins the given
  directory with each name. For the relative directory \<^verbatim>\<open>migrations\<close> the path of
  the entry is relative, not the one under the resolved \<^verbatim>\<open>/cwd/migrations\<close>.
\<close>

theorem catalog_directory_not_resolved:
  "path_resolve disk_env ''migrations'' = ''/cwd/migrations''
   \<and> getMigrationFiles disk_env (migrations_dir [init_sql]) ''migrations''
     = Inr [\<lparr>file_name = ''20230101000000_init.sql'',
               file_path = ''migrations/20230101000000_init.sql'',
               file_checksum = ''sha256:create settings''\<rparr>]
   \<and> getMigrationFiles disk_env (migrations_dir [init_sql]) (path_resolve disk_env ''migrations'')
     = Inr [\<lparr>file_name = ''20230101000000_init.sql'',
               file_path = ''/cwd/migrations/20230101000000_init.sql'',
               file_checksum = ''sha256:create settings''\<rparr>]"
  by code_simp

text \<open>
  Claim C9, amended. The catalog read lists the directory exactly as given, without
  resolving it. When the listing fails, the read fails with that error. When every
  listed name ending in \<^verbatim>\<open>.sql\<close> can be read, the result has one entry per such
  name, in listing order, other names being ignored; the entry's path is the given
  directory joined with the name, its checksum the digest of the content. When some
  listed \<^verbatim>\<open>.sql\<close> name cannot be read, the read fails. The result does not depend
  on what \<^verbatim>\<open>path.resolve\<close> would answer.
\<close>

theorem catalog_read_of_given_directory:
  "(fs_readdir env fs baseDir = Inl e \<longrightarrow> getMigrationFiles env fs baseDir = Inl e)
   \<and> (fs_readdir env fs baseDir = Inr listing
        \<and> (\<forall>f \<in> set listing. endsWith f ''.sql'' \<longrightarrow>
               (\<exists>content. fs_read env fs (path_join env baseDir f) = Inr content))
      \<longrightarrow> getMigrationFiles env fs baseDir
            = Inr (map (catalogEntry env fs baseDir) (filter (\<lambda>f. endsWith f ''.sql'') listing)))
   \<and> (fs_readdir env fs baseDir = Inr listing \<and> f \<in> set listing \<and> endsWith f ''.sql''
        \<and> fs_read env fs (path_join env baseDir f) = Inl e1
      \<longrightarrow> (\<exists>e2. getMigrationFiles env fs baseDir = Inl e2))
   \<and> getMigrationFiles (env\<lparr>path_resolve := r\<rparr>) fs baseDir = getMigrationFiles env fs baseDir"
proof -
  have unlisted: "getMigrationFiles env fs baseDir = Inl e" if "fs_readdir env fs baseDir = Inl e"
    using that by (simp add: getMigrationFiles_def)
  have listed: "getMigrationFiles env fs baseDir
            = Inr (map (catalogEntry env fs baseDir) (filter (\<lambda>f. endsWith f ''.sql'') listing))"
    if "fs_readdir env fs baseDir = Inr listing"
      and "\<forall>f \<in> set listing. endsWith f ''.sql'' \<longrightarrow>
               (\<exists>content. fs_read env fs (path_join env baseDir f) = Inr content)"
    using that(1) collect_readable [OF that(2), of "[]"] by (simp add: getMigrationFiles_def)
  have unreadable: "\<exists>e2. getMigrationFiles env fs baseDir = Inl e2"
    if "fs_readdir env fs baseDir = Inr listing" and "f \<in> set listing" and "endsWith f ''.sql''"
      and "fs_read env fs (path_join env baseDir f) = Inl e1"
    using that(1) collect_unreadable [OF that(2,3,4), of "[]"] by (simp add: getMigrationFiles_def)
  have given: "getMigrationFiles (env\<lparr>path_resolve := r\<rparr>) fs baseDir = getMigrationFiles env fs baseDir"
    by (simp add: getMigrationFiles_def collect_ignores_resolve split: sum.splits)
  from unlisted listed unreadable given show ?thesis by blast
qed

text \<open>
  A directory with two scripts and a note yields the two scripts; a directory that
  does not exist yields the error of the listing.
\<close>

theorem catalog_read_of_given_directory_witness:
  "getMigrationFiles disk_env (migrations_dir [init_sql, (''README.md'', ''notes''), add_users_sql])
      ''migrations''
     = Inr [demo_entry init_sql, demo_entry add_users_sql]
   \<and> getMigrationFiles disk_env (migrations_dir [init_sql, (''README.md'', ''notes''), add_users_sql])
      ''elsewhere''
     = Inl no_entry"
proof -
  let ?fs = "migrations_dir [init_sql, (''README.md'', ''notes''), add_users_sql]"
  let ?listing = "[''20230101000000_init.sql'', ''README.md'', ''20230102000000_add_users.sql'']"
  have listing: "fs_readdir disk_env ?fs ''migrations'' = Inr ?listing"
    by code_simp
  have r1: "fs_read disk_env ?fs (path_join disk_env ''migrations'' ''20230101000000_init.sql'')
              = Inr ''create settings''"
    by code_simp
  have r2: "fs_read disk_env ?fs (path_join disk_env ''migrations'' ''20230102000000_add_users.sql'')
              = Inr ''create users''"
    by code_simp
  have other: "endsWith ''README.md'' ''.sql'' = False"
    by code_simp
  have readable: "\<forall>f \<in> set ?listing. endsWith f ''.sql'' \<longrightarrow>
               (\<exists>content. fs_read disk_env ?fs (path_join disk_env ''migrations'' f) = Inr content)"
    using r1 r2 other by simp
  have entries: "map (catalogEntry disk_env ?fs ''migrations'') (filter (\<lambda>f. endsWith f ''.sql'') ?listing)
                   = [demo_entry init_sql, demo_entry add_users_sql]"
    by code_simp
  have missing: "fs_readdir disk_env ?fs ''elsewhere'' = Inl no_entry"
    by code_simp
  from catalog_read_of_given_directory [of disk_env ?fs "''migrations''" no_entry ?listing]
    listing readable
  have "getMigrationFiles disk_env ?fs ''migrations''
          = Inr (map (catalogEntry disk_env ?fs ''migrations'') (filter (\<lambda>f. endsWith f ''.sql'') ?listing))"
    by blast
  moreover from catalog_read_of_given_directory [of disk_env ?fs "''elsewhere''" no_entry] missing
  have "getMigrationFiles disk_env ?fs ''elsewhere'' = Inl no_entry"
    by blast
  ultimately show ?thesis by (simp only: entries)
qed

subsection \<open>C10: the name of a generated file\<close>

text \<open>
  Claim C10. For every name (a sequence of UTF-16 code units) and every lowercase
  mapping of the runtime, the generated file is called \<open>timestamp_t.sql\<close>. The time
  stamp is the first 14 digits of the clock's ISO string (assumed to hold at least 14
  digits, as every value of \<^verbatim>\<open>toISOString\<close> does); for an ISO string of the usual
  shape these are year, month, day, hours, minutes and seconds. \<open>t\<close> is the lowercased
  name with every code unit but \<^verbatim>\<open>a-z\<close>, digits and spaces removed and every space
  turned into an underscore (no other white space is left to replace). A name whose
  lowercase form holds no letter \<^verbatim>\<open>a-z\<close>, digit or space gives \<open>timestamp_.sql\<close>;
  so does every name without letters, digits and spaces, for a lowercase mapping that
  makes no letter \<^verbatim>\<open>a-z\<close>, digit or space out of a text without letters. The file is written under the resolved directory
  with that name whenever creating the directory and writing succeed, and
  \<open>generateMigration\<close> succeeds in no other way.
\<close>

theorem generated_file_name:
  assumes "14 \<le> length (filter is_digit isoString)"
  shows "fileName_of (toLowerCase env) isoString nm
           = utf16 (take 14 (filter is_digit isoString)) @ utf16 ''_''
             @ map (\<lambda>c. if c = 0x20 then 0x5F else c) (filter kept (toLowerCase env nm))
             @ utf16 ''.sql''
       \<and> length (take 14 (filter is_digit isoString)) = 14
       \<and> (\<forall>c \<in> set (take 14 (filter is_digit isoString)). is_digit c)
       \<and> (isoString = y @ ''-'' @ mo @ ''-'' @ d @ ''T'' @ h @ '':'' @ mi @ '':'' @ s @ ''.'' @ ms @ ''Z''
            \<and> (\<forall>c \<in> set (y @ mo @ d @ h @ mi @ s @ ms). is_digit c)
            \<and> length y = 4 \<and> length mo = 2 \<and> length d = 2 \<and> length h = 2 \<and> length mi = 2
            \<and> length s = 2
          \<longrightarrow> take 14 (filter is_digit isoString) = y @ mo @ d @ h @ mi @ s)
       \<and> latin1 (fileName_of (toLowerCase env) isoString nm)
           = take 14 (filter is_digit isoString) @ ''_''
             @ latin1 (map (\<lambda>c. if c = 0x20 then 0x5F else c) (filter kept (toLowerCase env nm)))
             @ ''.sql''
       \<and> ((\<forall>c \<in> set (toLowerCase env nm). \<not> kept c)
            \<longrightarrow> latin1 (fileName_of (toLowerCase env) isoString nm)
                  = take 14 (filter is_digit isoString) @ ''_.sql'')
       \<and> ((\<forall>t. (\<forall>c \<in> set t. \<not> letter c)
                  \<longrightarrow> (\<forall>c \<in> set (toLowerCase env t). kept c \<longrightarrow> c \<in> set t))
            \<and> (\<forall>c. 0x61 \<le> c \<and> c \<le> 0x7A \<longrightarrow> letter c)
            \<and> (\<forall>c \<in> set nm. \<not> letter c \<and> \<not> (0x30 \<le> c \<and> c \<le> 0x39) \<and> c \<noteq> 0x20)
            \<longrightarrow> latin1 (fileName_of (toLowerCase env) isoString nm)
                  = take 14 (filter is_digit isoString) @ ''_.sql'')
       \<and> (\<forall>fs1 fs2.
             fs_mkdir env fs (path_resolve env baseDir) = Inr fs1
             \<and> fs_writeFile env fs1
                  (path_join env (path_resolve env baseDir)
                     (latin1 (fileName_of (toLowerCase env) isoString nm)))
                  (''-- Write your migration here'' @ [CHR 0x0A]) = Inr fs2
             \<longrightarrow> generateMigration env isoString fs nm baseDir
                   = Inr (fs2, [Log ''Created''
                                  (path_join env baseDir
                                     (latin1 (fileName_of (toLowerCase env) isoString nm)))]))
       \<and> (\<forall>fs2 out.
             generateMigration env isoString fs nm baseDir = Inr (fs2, out)
             \<longrightarrow> (\<exists>fs1. fs_mkdir env fs (path_resolve env baseDir) = Inr fs1
                     \<and> fs_writeFile env fs1
                          (path_join env (path_resolve env baseDir)
                             (latin1 (fileName_of (toLowerCase env) isoString nm)))
                          (''-- Write your migration here'' @ [CHR 0x0A]) = Inr fs2))"
proof -
  let ?ts = "take 14 (filter is_digit isoString)"
  let ?t = "map (\<lambda>c. if c = 0x20 then 0x5F else c) (filter kept (toLowerCase env nm))"
  let ?file = "latin1 (fileName_of (toLowerCase env) isoString nm)"
  have units: "fileName_of (toLowerCase env) isoString nm
                 = utf16 ?ts @ utf16 ''_'' @ ?t @ utf16 ''.sql''"
    by (simp only: fileName_of_def sanitize_spaces timestamp_of_def)
  have len: "length ?ts = 14" and digits: "\<forall>c \<in> set ?ts. is_digit c"
    using timestamp_digits [OF assms] by (simp_all only: timestamp_of_def)
  have shape: "?ts = y @ mo @ d @ h @ mi @ s"
    if "isoString = y @ ''-'' @ mo @ ''-'' @ d @ ''T'' @ h @ '':'' @ mi @ '':'' @ s @ ''.'' @ ms @ ''Z''
        \<and> (\<forall>c \<in> set (y @ mo @ d @ h @ mi @ s @ ms). is_digit c)
        \<and> length y = 4 \<and> length mo = 2 \<and> length d = 2 \<and> length h = 2 \<and> length mi = 2
        \<and> length s = 2"
  proof -
    from that have iso: "isoString = y @ ''-'' @ mo @ ''-'' @ d @ ''T'' @ h @ '':'' @ mi @ '':'' @ s
                           @ ''.'' @ ms @ ''Z''"
      and dig: "\<forall>c \<in> set (y @ mo @ d @ h @ mi @ s @ ms). is_digit c"
      and lens: "length y = 4" "length mo = 2" "length d = 2" "length h = 2" "length mi = 2"
        "length s = 2"
      by blast+
    from timestamp_of_iso_shape [OF iso dig lens] show ?thesis
      by (simp only: timestamp_of_def)
  qed
  have split: "latin1 (a @ b) = latin1 a @ latin1 b" for a b
    by (simp add: latin1_def)
  have file_text: "?file = ?ts @ ''_'' @ latin1 ?t @ ''.sql''"
    by (simp only: units split latin1_utf16)
  have edge: "?file = ?ts @ ''_.sql''" if "\<forall>c \<in> set (toLowerCase env nm). \<not> kept c"
  proof -
    from that have "filter kept (toLowerCase env nm) = []"
      unfolding filter_empty_conv by simp
    then have "latin1 ?t = []" by (simp add: latin1_def)
    with file_text show ?thesis by simp
  qed
  have no_letters: "?file = ?ts @ ''_.sql''"
    if "(\<forall>t. (\<forall>c \<in> set t. \<not> letter c)
                  \<longrightarrow> (\<forall>c \<in> set (toLowerCase env t). kept c \<longrightarrow> c \<in> set t))
        \<and> (\<forall>c. 0x61 \<le> c \<and> c \<le> 0x7A \<longrightarrow> letter c)
        \<and> (\<forall>c \<in> set nm. \<not> letter c \<and> \<not> (0x30 \<le> c \<and> c \<le> 0x39) \<and> c \<noteq> 0x20)"
  proof -
    from that have old: "\<forall>c \<in> set (toLowerCase env nm). kept c \<longrightarrow> c \<in> set nm"
      by blast
    from that have "\<forall>c \<in> set nm. \<not> kept c"
      unfolding kept_def by blast
    with old have "\<forall>c \<in> set (toLowerCase env nm). \<not> kept c"
      by blast
    then show ?thesis by (rule edge)
  qed
  have written: "generateMigration env isoString fs nm baseDir
                   = Inr (fs2, [Log ''Created'' (path_join env baseDir ?file)])"
    if "fs_mkdir env fs (path_resolve env baseDir) = Inr fs1
        \<and> fs_writeFile env fs1 (path_join env (path_resolve env baseDir) ?file)
             (''-- Write your migration here'' @ [CHR 0x0A]) = Inr fs2"
    for fs1 fs2
    using that by (simp add: generateMigration_def Let_def)
  have needs: "\<exists>fs1. fs_mkdir env fs (path_resolve env baseDir) = Inr fs1
                 \<and> fs_writeFile env fs1 (path_join env (path_resolve env baseDir) ?file)
                      (''-- Write your migration here'' @ [CHR 0x0A]) = Inr fs2"
    if "generateMigration env isoString fs nm baseDir = Inr (fs2, out)" for fs2 out
    using that by (auto simp: generateMigration_def Let_def split: sum.splits)
  show ?thesis
    using units len digits shape file_text edge no_letters written needs
    by (intro conjI impI allI) blast+
qed

text \<open>
  A name with capitals, two spaces and punctuation; the Kelvin sign, whose lower case
  is \<^verbatim>\<open>k\<close>; and a name of punctuation only.
\<close>

theorem generated_file_name_witness:
  "14 \<le> length (filter is_digit ''2023-10-25T19:42:00.000Z'')
   \<and> take 14 (filter is_digit ''2023-10-25T19:42:00.000Z'')
       = ''2023'' @ ''10'' @ ''25'' @ ''19'' @ ''42'' @ ''00''
   \<and> latin1 (fileName_of (toLowerCase disk_env) ''2023-10-25T19:42:00.000Z''
               (utf16 ''Add  Users-Table 2!''))
       = ''20231025194200_add__userstable_2.sql''
   \<and> latin1 (fileName_of (toLowerCase disk_env) ''2023-10-25T19:42:00.000Z'' [0x212A])
       = ''20231025194200_k.sql''
   \<and> latin1 (fileName_of (toLowerCase disk_env) ''2023-10-25T19:42:00.000Z'' (utf16 ''!?-''))
       = ''20231025194200_.sql''
   \<and> generateMigration disk_env ''2023-10-25T19:42:00.000Z'' (migrations_dir [])
        (utf16 ''Add  Users-Table 2!'') ''migrations''
       = Inr (migrations_dir [(''20231025194200_add__userstable_2.sql'',
                               ''-- Write your migration here'' @ [CHR 0x0A])],
              [Log ''Created'' ''migrations/20231025194200_add__userstable_2.sql''])"
proof -
  let ?iso = "''2023-10-25T19:42:00.000Z''"
  let ?name = "utf16 ''Add  Users-Table 2!''"
  let ?file = "''20231025194200_add__userstable_2.sql''"
  let ?fs2 = "migrations_dir [(?file, ''-- Write your migration here'' @ [CHR 0x0A])]"
  have lower: "toLowerCase disk_env = demo_lower"
    by (simp add: disk_env_def)
  have digits: "14 \<le> length (filter is_digit ?iso)"
    by code_simp
  have iso: "?iso = ''2023'' @ ''-'' @ ''10'' @ ''-'' @ ''25'' @ ''T'' @ ''19'' @ '':'' @ ''42''
                      @ '':'' @ ''00'' @ ''.'' @ ''000'' @ ''Z''"
    by simp
  have all_digits: "\<forall>c \<in> set (''2023'' @ ''10'' @ ''25'' @ ''19'' @ ''42'' @ ''00'' @ ''000''). is_digit c"
    by code_simp
  note thm1 = generated_file_name [OF digits, of disk_env ?name "''2023''" "''10''" "''25''" "''19''"
      "''42''" "''00''" "''000''" demo_letter "migrations_dir []" "''migrations''"]
  note thm2 = generated_file_name [OF digits, of disk_env "[0x212A]" "''2023''" "''10''" "''25''"
      "''19''" "''42''" "''00''" "''000''" demo_letter "migrations_dir []" "''migrations''"]
  note thm3 = generated_file_name [OF digits, of disk_env "utf16 ''!?-''" "''2023''" "''10''" "''25''"
      "''19''" "''42''" "''00''" "''000''" demo_letter "migrations_dir []" "''migrations''"]
  note shape = thm1 [THEN conjunct2, THEN conjunct2, THEN conjunct2, THEN conjunct1]
  note text1 = thm1 [THEN conjunct2, THEN conjunct2, THEN conjunct2, THEN conjunct2, THEN conjunct1]
  note text2 = thm2 [THEN conjunct2, THEN conjunct2, THEN conjunct2, THEN conjunct2, THEN conjunct1]
  note letters3 = thm3 [THEN conjunct2, THEN conjunct2, THEN conjunct2, THEN conjunct2,
      THEN conjunct2, THEN conjunct2, THEN conjunct1]
  note written1 = thm1 [THEN conjunct2, THEN conjunct2, THEN conjunct2, THEN conjunct2,
      THEN conjunct2, THEN conjunct2, THEN conjunct2, THEN conjunct1]
  have "?iso = ''2023'' @ ''-'' @ ''10'' @ ''-'' @ ''25'' @ ''T'' @ ''19'' @ '':'' @ ''42''
                 @ '':'' @ ''00'' @ ''.'' @ ''000'' @ ''Z''
        \<and> (\<forall>c \<in> set (''2023'' @ ''10'' @ ''25'' @ ''19'' @ ''42'' @ ''00'' @ ''000''). is_digit c)
        \<and> length ''2023'' = 4 \<and> length ''10'' = 2 \<and> length ''25'' = 2 \<and> length ''19'' = 2
        \<and> length ''42'' = 2 \<and> length ''00'' = 2"
    by (intro conjI iso all_digits) simp_all
  then have ts: "take 14 (filter is_digit ?iso) = ''2023'' @ ''10'' @ ''25'' @ ''19'' @ ''42'' @ ''00''"
    by (rule shape [THEN mp])
  have part1: "latin1 (map (\<lambda>c. if c = 0x20 then 0x5F else c) (filter kept (demo_lower ?name)))
                 = ''add__userstable_2''"
    by code_simp
  from text1 have f1: "latin1 (fileName_of (toLowerCase disk_env) ?iso ?name) = ?file"
    by (simp only: ts lower part1) simp
  have part2: "latin1 (map (\<lambda>c. if c = 0x20 then 0x5F else c) (filter kept (demo_lower [0x212A])))
                 = ''k''"
    by code_simp
  from text2 have f2: "latin1 (fileName_of (toLowerCase disk_env) ?iso [0x212A]) = ''20231025194200_k.sql''"
    by (simp only: ts lower part2) simp
  have unchanged: "\<forall>t. (\<forall>c \<in> set t. \<not> demo_letter c)
                     \<longrightarrow> (\<forall>c \<in> set (toLowerCase disk_env t). kept c \<longrightarrow> c \<in> set t)"
    by (simp add: lower demo_lower_fixes)
  have az: "\<forall>c. 0x61 \<le> c \<and> c \<le> 0x7A \<longrightarrow> demo_letter c"
    by (simp add: demo_letter_def)
  have none: "\<forall>c \<in> set (utf16 ''!?-''). \<not> demo_letter c \<and> \<not> (0x30 \<le> c \<and> c \<le> 0x39) \<and> c \<noteq> 0x20"
    by code_simp
  from letters3 unchanged az none
  have "latin1 (fileName_of (toLowerCase disk_env) ?iso (utf16 ''!?-''))
          = take 14 (filter is_digit ?iso) @ ''_.sql''"
    by blast
  then have f3: "latin1 (fileName_of (toLowerCase disk_env) ?iso (utf16 ''!?-''))
                   = ''20231025194200_.sql''"
    by (simp only: ts) simp
  have mk: "fs_mkdir disk_env (migrations_dir []) (path_resolve disk_env ''migrations'')
              = Inr (migrations_dir [])"
    by code_simp
  have wr: "fs_writeFile disk_env (migrations_dir [])
              (path_join disk_env (path_resolve disk_env ''migrations'') ?file)
              (''-- Write your migration here'' @ [CHR 0x0A]) = Inr ?fs2"
    by code_simp
  from written1 mk wr have "generateMigration disk_env ?iso (migrations_dir []) ?name ''migrations''
       = Inr (?fs2, [Log ''Created'' (path_join disk_env ''migrations'' ?file)])"
    unfolding f1 by blast
  moreover have "path_join disk_env ''migrations'' ?file
                   = ''migrations/20231025194200_add__userstable_2.sql''"
    by code_simp
  ultimately have gen: "generateMigration disk_env ?iso (migrations_dir []) ?name ''migrations''
       = Inr (?fs2, [Log ''Created'' ''migrations/20231025194200_add__userstable_2.sql''])"
    by (simp only:)
  from digits ts f1 f2 f3 gen show ?thesis by blast
qed

end
